theory Spec2Isabelle
  imports Main
begin

section \<open>The getINVOLVED connector of RU Events Hub\<close>

text \<open>
  A shallow embedding of \<^verbatim>\<open>backend/connectors/getinvolved.py\<close>. Python strings are
  modelled as \<^typ>\<open>string\<close>; the model covers ASCII text, on which \<^verbatim>\<open>str.lower\<close>,
  \<^verbatim>\<open>str.strip\<close> and the \<^verbatim>\<open>\s\<close> class of \<^verbatim>\<open>re\<close> are the functions written out below,
  and \<^verbatim>\<open>str.encode\<close> is the identity.
\<close>

subsection \<open>Python string primitives\<close>

text \<open>
  An ASCII capital (codes 65 to 90) becomes the small letter 32 above it, which is the same
  code with bit 5 set; every other character stays.
\<close>

definition char_lower :: "char \<Rightarrow> char" where
  "char_lower c =
     (let n = (of_char c :: nat) in
      if 65 \<le> n \<and> n \<le> 90
      then (case c of Char b0 b1 b2 b3 b4 b5 b6 b7 \<Rightarrow> Char b0 b1 b2 b3 b4 True b6 b7)
      else c)"

text \<open>\<^verbatim>\<open>s.lower()\<close>\<close>

definition lower :: "string \<Rightarrow> string" where
  "lower s = map char_lower s"

text \<open>\<^verbatim>\<open>s.startswith(pat)\<close>\<close>

definition startswith :: "string \<Rightarrow> string \<Rightarrow> bool" where
  "startswith s pat = (take (length pat) s = pat)"

text \<open>\<^verbatim>\<open>kw in s\<close> on strings: \<open>kw\<close> occurs in \<open>s\<close> as a contiguous substring.\<close>

fun py_in :: "string \<Rightarrow> string \<Rightarrow> bool" where
  "py_in kw [] = (kw = [])"
| "py_in kw (c # cs) = (startswith (c # cs) kw \<or> py_in kw cs)"

subsection \<open>Campus inference\<close>

definition CAMPUS_KEYWORDS :: "(string \<times> string list) list" where
  "CAMPUS_KEYWORDS =
    [(''College Ave'',
       [''Student Center'', ''Scott Hall'', ''College Ave'', ''Voorhees'', ''Old Queens'',
        ''Zimmerli'', ''Hillel'', ''Academic Building'', ''Murray Hall'', ''Demarest'',
        ''Paul Robeson'', ''Hardenbergh'', ''Clothier'', ''Seminary'', ''Eagleton'',
        ''CASC'', ''Silvers'', ''Catholic Center'', ''Linguistic'', ''Civic Square'',
        ''St. Peter'', ''Little Theatre'', ''Women'' @ [CHR 39] @ ''s House'',
        ''Alexander Library'', ''Nicholas Music'', ''McCormick'', ''Bloustein'',
        ''SC&I'', ''RU Cinema'', ''Art History'', ''Loree'', ''French Seminar'',
        ''Student Activities Center'']),
     (''Livingston'',
       [''RAC'', ''Jersey Mike'', ''Tillett'', ''Tillet'', ''Livi'', ''Livingston'',
        ''RBS'', ''Ludwig'', ''Lucy Stone'', ''Hatchery'', ''The Yard'',
        ''Graduate Student Lounge'', ''The Cage'', ''Richardson'', ''DSC Lounge'']),
     (''Busch'',
       [''Werblin'', ''Busch'', ''Hill Center'', ''SERC'',
        ''BSC'', ''BME'', ''Biomedical Engineering'', ''Serin'', ''Richard Weeks'',
        ''Research Tower'', ''Proteomics'', ''Life Science'', ''CoRE'',
        ''Rutgers Golf'']),
     (''Cook/Douglass'',
       [''Cook'', ''Douglass'', ''Hickman'', ''Passion Puddle'',
        ''Ruth Adams'', ''Marine and Coastal Sciences'', ''ENR'',
        ''Rutgers Botanical'', ''ABE''])]"

definition ONLINE_KEYWORDS :: "string list" where
  "ONLINE_KEYWORDS = [''zoom'', ''online'', ''virtual'', ''teams'', ''webinar'']"

definition TBD_PATTERNS :: "string list" where
  "TBD_PATTERNS = [''tbd'', ''to be determined'', ''to be announced'', ''tba'']"

definition OFF_CAMPUS_KEYWORDS :: "string list" where
  "OFF_CAMPUS_KEYWORDS =
    [''Eastern Star Rehabilitation'', ''Mitsuwa'', ''Liberty Science Center'',
     ''United Nations'', ''Utica University'', ''Buccleuch'', ''Johnson Park'',
     ''New Orleans'', ''Jersey City'', ''New York City'', ''Newark'']"

text \<open>
  \<^verbatim>\<open>infer_campus(location)\<close>. Each \<^verbatim>\<open>for ... if ...: return\<close> loop returns at the first
  element that passes its test, so it is a search through the list; the loop over
  \<^verbatim>\<open>CAMPUS_KEYWORDS.items()\<close> goes through the campuses in the order of the dict literal.
\<close>

definition infer_campus :: "string option \<Rightarrow> string" where
  "infer_campus location =
     (case location of
        None \<Rightarrow> ''Unknown''
      | Some loc \<Rightarrow>
          if loc = [] then ''Unknown''
          else
            let loc_lower = lower loc in
            if list_ex (\<lambda>pat. startswith loc_lower pat) TBD_PATTERNS then ''Unknown''
            else if list_ex (\<lambda>kw. py_in kw loc_lower) ONLINE_KEYWORDS then ''Online''
            else
              (case find (\<lambda>(campus, keywords). list_ex (\<lambda>kw. py_in (lower kw) loc_lower) keywords)
                         CAMPUS_KEYWORDS of
                 Some (campus, keywords) \<Rightarrow> campus
               | None \<Rightarrow>
                   if list_ex (\<lambda>kw. py_in (lower kw) loc_lower) OFF_CAMPUS_KEYWORDS
                   then ''Off-Campus''
                   else ''Unknown''))"

subsection \<open>Stable event ID\<close>

text \<open>
  The libraries the connector calls are parameters of the model: \<^verbatim>\<open>hashlib\<close>, \<^verbatim>\<open>dateutil\<close>
  and \<^verbatim>\<open>datetime\<close> are not code of this repository.
  \<^item> \<open>sha256_hexdigest b\<close> is \<^verbatim>\<open>hashlib.sha256(b).hexdigest()\<close>;
  \<^item> \<open>dateutil_parse s\<close> is \<^verbatim>\<open>dateutil_parser.parse(s)\<close>, \<open>None\<close> where it raises;
  \<^item> \<open>utc_isoformat d\<close> is \<^verbatim>\<open>d.astimezone(timezone.utc).isoformat()\<close> of an aware \<open>d\<close>;
  \<^item> \<open>py_repr j\<close> is \<^verbatim>\<open>str(j)\<close> of a list or a dict.
\<close>

datatype json =
    JNull
  | JBool bool
  | JInt int
  | JStr string
  | JArr "json list"
  | JObj "(string \<times> json) list"

record datetime =
  dt_year :: int
  dt_month :: int
  dt_day :: int
  dt_hour :: int
  dt_minute :: int
  dt_second :: int
  dt_microsecond :: int
  tzinfo :: "int option"

record libs =
  sha256_hexdigest :: "string \<Rightarrow> string"
  dateutil_parse :: "string \<Rightarrow> datetime option"
  utc_isoformat :: "datetime \<Rightarrow> string"
  py_repr :: "json \<Rightarrow> string"

definition SOURCE :: string where
  "SOURCE = ''getinvolved''"

definition make_event_id :: "libs \<Rightarrow> string \<Rightarrow> string \<Rightarrow> string \<Rightarrow> string" where
  "make_event_id L ttl start src =
     (let raw = ttl @ ''|'' @ start @ ''|'' @ src
      in take 32 (sha256_hexdigest L raw))"

subsection \<open>HTML stripping\<close>

text \<open>
  \<^verbatim>\<open>_HTML_TAG_RE.sub(" ", text)\<close> with \<^verbatim>\<open>_HTML_TAG_RE = re.compile(r"<[^>]+>")\<close>. The scan
  goes left to right. At a \<^verbatim>\<open><\<close> the greedy \<^verbatim>\<open>[^>]+\<close> takes every character up to the next
  \<^verbatim>\<open>>\<close> (a newline too), so there is a match exactly when that run is not empty and a
  \<^verbatim>\<open>>\<close> follows it; the match is replaced by one space and the scan goes on behind it.
\<close>

function html_tag_sub :: "string \<Rightarrow> string" where
  "html_tag_sub [] = []"
| "html_tag_sub (c # cs) =
     (if c = CHR ''<'' \<and> takeWhile (\<lambda>x. x \<noteq> CHR ''>'') cs \<noteq> []
         \<and> dropWhile (\<lambda>x. x \<noteq> CHR ''>'') cs \<noteq> []
      then CHR '' '' # html_tag_sub (tl (dropWhile (\<lambda>x. x \<noteq> CHR ''>'') cs))
      else c # html_tag_sub cs)"
  by pat_completeness auto
termination
  by (relation "measure length")
     (auto simp: less_Suc_eq_le intro: le_trans [OF diff_le_self length_dropWhile_le])

text \<open>
  Whitespace as \<^verbatim>\<open>\s\<close> and \<^verbatim>\<open>str.strip()\<close> see it on ASCII: the codes 9 to 13, 28 to 31
  and the space.
\<close>

definition is_space :: "char \<Rightarrow> bool" where
  "is_space c = (let n = (of_char c :: nat) in (9 \<le> n \<and> n \<le> 13) \<or> (28 \<le> n \<and> n \<le> 32))"

text \<open>\<^verbatim>\<open>_WHITESPACE_RE.sub(" ", s)\<close> with \<^verbatim>\<open>_WHITESPACE_RE = re.compile(r"\s+")\<close>\<close>

function whitespace_sub :: "string \<Rightarrow> string" where
  "whitespace_sub [] = []"
| "whitespace_sub (c # cs) =
     (if is_space c then CHR '' '' # whitespace_sub (dropWhile is_space cs)
      else c # whitespace_sub cs)"
  by pat_completeness auto
termination
  by (relation "measure length") (auto simp: less_Suc_eq_le length_dropWhile_le)

text \<open>\<^verbatim>\<open>s.strip()\<close>\<close>

definition strip :: "string \<Rightarrow> string" where
  "strip s = rev (dropWhile is_space (rev (dropWhile is_space s)))"

definition strip_html :: "string option \<Rightarrow> string option" where
  "strip_html text =
     (case text of
        None \<Rightarrow> None
      | Some t \<Rightarrow>
          if t = [] then None
          else
            let cleaned = html_tag_sub t;
                cleaned = strip (whitespace_sub cleaned)
            in if cleaned = [] then None else Some cleaned)"

text \<open>
  The sanitizer as the specification words it: every tag is removed (deleted), every run
  of whitespace becomes one space, the ends are trimmed, and an empty result is absent.
\<close>

function html_tag_remove :: "string \<Rightarrow> string" where
  "html_tag_remove [] = []"
| "html_tag_remove (c # cs) =
     (if c = CHR ''<'' \<and> takeWhile (\<lambda>x. x \<noteq> CHR ''>'') cs \<noteq> []
         \<and> dropWhile (\<lambda>x. x \<noteq> CHR ''>'') cs \<noteq> []
      then html_tag_remove (tl (dropWhile (\<lambda>x. x \<noteq> CHR ''>'') cs))
      else c # html_tag_remove cs)"
  by pat_completeness auto
termination
  by (relation "measure length")
     (auto simp: less_Suc_eq_le intro: le_trans [OF diff_le_self length_dropWhile_le])

definition sanitize_spec :: "string option \<Rightarrow> string option" where
  "sanitize_spec text =
     (case text of
        None \<Rightarrow> None
      | Some t \<Rightarrow>
          let cleaned = strip (whitespace_sub (html_tag_remove t))
          in if cleaned = [] then None else Some cleaned)"

subsection \<open>Python values and exceptions\<close>

text \<open>
  A value decoded from JSON is a \<^typ>\<open>json\<close> (JSON numbers with a fraction are not modelled).
  A \<^verbatim>\<open>dict\<close> is the list of its items in insertion order, read by \<^const>\<open>map_of\<close>.
  An exception is its class and its \<^verbatim>\<open>str()\<close>; an \<^verbatim>\<open>HTTPError\<close> carries the status too.
\<close>

datatype py_error = HTTPError int string | PyExc string string

definition str_exc :: "py_error \<Rightarrow> string" where
  "str_exc e = (case e of HTTPError status msg \<Rightarrow> msg | PyExc cls msg \<Rightarrow> msg)"

definition AttributeError :: "string \<Rightarrow> py_error" where
  "AttributeError attr = PyExc ''AttributeError'' (''object has no attribute '' @ attr)"

definition TypeError :: "string \<Rightarrow> py_error" where
  "TypeError msg = PyExc ''TypeError'' msg"

text \<open>Sequencing of a step that may raise: the exception ends the computation.\<close>

definition bind_exc :: "py_error + 'a \<Rightarrow> ('a \<Rightarrow> py_error + 'b) \<Rightarrow> py_error + 'b" where
  "bind_exc m f = (case m of Inl e \<Rightarrow> Inl e | Inr v \<Rightarrow> f v)"

text \<open>Truth value of a Python object, as \<^verbatim>\<open>if x\<close>, \<^verbatim>\<open>not x\<close> and \<^verbatim>\<open>x or y\<close> take it.\<close>

fun truthy :: "json \<Rightarrow> bool" where
  "truthy JNull = False"
| "truthy (JBool b) = b"
| "truthy (JInt n) = (n \<noteq> 0)"
| "truthy (JStr s) = (s \<noteq> [])"
| "truthy (JArr xs) = (xs \<noteq> [])"
| "truthy (JObj kvs) = (kvs \<noteq> [])"

definition py_or :: "json \<Rightarrow> json \<Rightarrow> json" where
  "py_or a b = (if truthy a then a else b)"

text \<open>\<^verbatim>\<open>s or None\<close> on a string\<close>

definition or_None :: "string \<Rightarrow> string option" where
  "or_None s = (if s = [] then None else Some s)"

text \<open>\<^verbatim>\<open>d.get(k, default)\<close> on a dict, and on any value: only a dict has \<^verbatim>\<open>get\<close>.\<close>

definition dict_get :: "(string \<times> json) list \<Rightarrow> string \<Rightarrow> json \<Rightarrow> json" where
  "dict_get kvs k dflt = (case map_of kvs k of None \<Rightarrow> dflt | Some v \<Rightarrow> v)"

definition py_get :: "json \<Rightarrow> string \<Rightarrow> json \<Rightarrow> py_error + json" where
  "py_get d k dflt =
     (case d of JObj kvs \<Rightarrow> Inr (dict_get kvs k dflt) | _ \<Rightarrow> Inl (AttributeError ''get''))"

text \<open>\<^verbatim>\<open>d[k] = v\<close>: an existing key keeps its place, a new key goes last.\<close>

fun dict_set :: "(string \<times> json) list \<Rightarrow> string \<Rightarrow> json \<Rightarrow> (string \<times> json) list" where
  "dict_set [] k v = [(k, v)]"
| "dict_set ((k', v') # kvs) k v =
     (if k' = k then (k, v) # kvs else (k', v') # dict_set kvs k v)"

text \<open>\<^verbatim>\<open>x.strip()\<close> on any value: only a string has \<^verbatim>\<open>strip\<close>.\<close>

definition py_strip :: "json \<Rightarrow> py_error + string" where
  "py_strip x = (case x of JStr s \<Rightarrow> Inr (strip s) | _ \<Rightarrow> Inl (AttributeError ''strip''))"

text \<open>\<^verbatim>\<open>for x in v\<close>: a list gives its elements, a string its characters, a dict its keys.\<close>

definition py_iter :: "json \<Rightarrow> py_error + json list" where
  "py_iter v =
     (case v of
        JArr xs \<Rightarrow> Inr xs
      | JStr s \<Rightarrow> Inr (map (\<lambda>c. JStr [c]) s)
      | JObj kvs \<Rightarrow> Inr (map (\<lambda>kv. JStr (fst kv)) kvs)
      | _ \<Rightarrow> Inl (TypeError ''object is not iterable''))"

text \<open>\<^verbatim>\<open>len(v)\<close>\<close>

definition py_len :: "json \<Rightarrow> py_error + nat" where
  "py_len v =
     (case v of
        JArr xs \<Rightarrow> Inr (length xs)
      | JStr s \<Rightarrow> Inr (length s)
      | JObj kvs \<Rightarrow> Inr (length kvs)
      | _ \<Rightarrow> Inl (TypeError ''object has no len()''))"

text \<open>The integer a value is in arithmetic and comparison: \<^verbatim>\<open>bool\<close> is a subclass of \<^verbatim>\<open>int\<close>.\<close>

definition as_int :: "json \<Rightarrow> int option" where
  "as_int v = (case v of JInt n \<Rightarrow> Some n | JBool b \<Rightarrow> Some (if b then 1 else 0) | _ \<Rightarrow> None)"

text \<open>\<^verbatim>\<open>str(n)\<close> of an integer, in decimal.\<close>

function str_nat :: "nat \<Rightarrow> string" where
  "str_nat n = (if n < 10 then [''0123456789'' ! n] else str_nat (n div 10) @ [''0123456789'' ! (n mod 10)])"
  by pat_completeness auto
termination
  by (relation "measure id") auto

declare str_nat.simps [simp del]

definition str_int :: "int \<Rightarrow> string" where
  "str_int i = (if i < 0 then ''-'' @ str_nat (nat (- i)) else str_nat (nat i))"

text \<open>\<^verbatim>\<open>str(v)\<close>, which is also what an f-string field renders.\<close>

definition py_str :: "libs \<Rightarrow> json \<Rightarrow> string" where
  "py_str L v =
     (case v of
        JNull \<Rightarrow> ''None''
      | JBool b \<Rightarrow> (if b then ''True'' else ''False'')
      | JInt n \<Rightarrow> str_int n
      | JStr s \<Rightarrow> s
      | _ \<Rightarrow> py_repr L v)"

text \<open>\<^verbatim>\<open>sep.join(xs)\<close> on a list of strings\<close>

fun py_join :: "string \<Rightarrow> string list \<Rightarrow> string" where
  "py_join sep [] = []"
| "py_join sep [x] = x"
| "py_join sep (x # y # xs) = x @ sep @ py_join sep (y # xs)"

subsection \<open>Constants, the canonical event and the outside world\<close>

definition API_URL :: string where
  "API_URL = ''https://rutgers.campuslabs.com/engage/api/discovery/event/search''"

definition ICAL_URL :: string where
  "ICAL_URL = ''https://rutgers.campuslabs.com/engage/events/ical''"

definition PAGE_SIZE :: nat where
  "PAGE_SIZE = 100"

definition MAX_FAILURES :: int where
  "MAX_FAILURES = 3"

text \<open>The dict a normalizer returns, which is also a row of the \<^verbatim>\<open>events\<close> table.\<close>

record event =
  event_id :: string
  source :: string
  title :: string
  description :: "string option"
  start_time :: string
  end_time :: "string option"
  location :: "string option"
  campus :: string
  organization :: "string option"
  category :: "string option"
  source_url :: string
  last_seen :: string

text \<open>
  What a run does to the outside is kept as a trace: the HTTP requests (an API request
  with its \<^verbatim>\<open>skip\<close>) and the queries sent to the store.
\<close>

datatype effect =
    ApiRequest nat
  | IcalRequest
  | StoreCount
  | StoreSelect "string list"
  | StoreUpsert "event list"

text \<open>
  \<^verbatim>\<open>backend/state.json\<close>: absent; present but \<^verbatim>\<open>read_text\<close> raises \<^verbatim>\<open>OSError\<close>; present
  with bytes that do not decode (\<^verbatim>\<open>UnicodeDecodeError\<close>, a \<^verbatim>\<open>ValueError\<close>); present with a
  text that \<^verbatim>\<open>json.loads\<close> rejects; or present with a JSON document.
\<close>

datatype state_file = Missing | Unreadable | Undecodable | Malformed | Contents json

record world =
  STATE_FILE :: state_file
  store :: "event list"
  trace :: "effect list"

text \<open>
  An answer to \<^verbatim>\<open>requests.get\<close>: the call raises, or there is a response with its
  status, the message \<^verbatim>\<open>raise_for_status\<close> would raise with, and its body decoded
  (\<open>Inl\<close> the message of the decoder's exception).
\<close>

datatype 'a http_response = ConnectionFailed string | Response int string "string + 'a"

text \<open>
  A component of the calendar as \<^verbatim>\<open>icalendar\<close> gives it: its \<^verbatim>\<open>name\<close> and the properties
  the connector reads; \<^verbatim>\<open>DTSTART.dt\<close> is a \<^verbatim>\<open>datetime\<close> or a \<^verbatim>\<open>date\<close>.
\<close>

datatype ical_dt = IcalDatetime datetime | IcalDate int int int

record component =
  c_name :: string
  SUMMARY :: "string option"
  DTSTART :: "ical_dt option"
  DTEND :: "ical_dt option"
  LOCATION :: "string option"
  DESCRIPTION :: "string option"
  URL :: "string option"

text \<open>
  What \<^verbatim>\<open>STATE_FILE.write_text\<close> does when it is called: it writes the whole text; or
  opening the file raises \<^verbatim>\<open>OSError\<close> (the path is a directory, or may not be written)
  and the file stays as it is; or the file is opened, which empties it, and writing
  raises \<^verbatim>\<open>OSError\<close> (the disk is full), which leaves a part of the text, and no part of
  a JSON document is one.
\<close>

datatype write_outcome = Written | OpenFails string | WriteFails string

text \<open>
  What the outside answers during one run: the clock (one reading for the whole run),
  the API by \<^verbatim>\<open>skip\<close>, the calendar feed (the components \<^verbatim>\<open>cal.walk()\<close> yields), for each
  query of the store the message of the exception it raises, if it raises, and what
  writing the state file does. Reading and writing that file are apart: a file that may
  be written and not read is \<^const>\<open>Unreadable\<close> and \<^const>\<open>Written\<close>, a directory in its
  place is \<^const>\<open>Unreadable\<close> and \<^const>\<open>OpenFails\<close>.
\<close>

record env =
  now :: string
  api_server :: "nat \<Rightarrow> json http_response"
  ical_server :: "component list http_response"
  count_error :: "string option"
  select_error :: "string option"
  upsert_error :: "string option"
  state_write :: write_outcome

subsection \<open>State and kill-switch helpers\<close>

definition default_state :: json where
  "default_state =
     JObj [(SOURCE, JObj [(''consecutive_failures'', JInt 0), (''kill_switch'', JBool False),
                          (''last_success'', JNull), (''last_attempt'', JNull)])]"

text \<open>
  \<^verbatim>\<open>_load_state()\<close>: \<^verbatim>\<open>json.JSONDecodeError\<close> and \<^verbatim>\<open>OSError\<close> are caught and give the
  default; a \<^verbatim>\<open>UnicodeDecodeError\<close> is neither and leaves the function.
\<close>

definition load_state :: "world \<Rightarrow> py_error + json" where
  "load_state w =
     (case STATE_FILE w of
        Missing \<Rightarrow> Inr default_state
      | Unreadable \<Rightarrow> Inr default_state
      | Malformed \<Rightarrow> Inr default_state
      | Undecodable \<Rightarrow> Inl (PyExc ''UnicodeDecodeError'' ''codec can not decode byte'')
      | Contents state \<Rightarrow> Inr state)"

text \<open>
  \<^verbatim>\<open>_save_state(state)\<close>: \<open>Some\<close> is the \<^verbatim>\<open>OSError\<close> that leaves it. When the text is
  written the file holds the document \<^verbatim>\<open>json.dumps\<close> gives, which \<^verbatim>\<open>json.loads\<close> reads
  back as the same value.
\<close>

definition save_state :: "env \<Rightarrow> json \<Rightarrow> world \<Rightarrow> py_error option \<times> world" where
  "save_state env state w =
     (case state_write env of
        Written \<Rightarrow> (None, w\<lparr>STATE_FILE := Contents state\<rparr>)
      | OpenFails msg \<Rightarrow> (Some (PyExc ''OSError'' msg), w)
      | WriteFails msg \<Rightarrow> (Some (PyExc ''OSError'' msg), w\<lparr>STATE_FILE := Malformed\<rparr>))"

text \<open>
  \<^verbatim>\<open>_record_failure(state)\<close>. \<^verbatim>\<open>state.setdefault(SOURCE, {})\<close> needs a dict, \<^verbatim>\<open>s.get\<close> needs
  the entry to be a dict, and \<^verbatim>\<open>+ 1\<close> needs a number; the dict \<open>s\<close> is the entry of
  \<open>state\<close> itself, so the assignments to \<open>s\<close> are written back into \<open>state\<close>. An
  exception of \<^verbatim>\<open>_save_state\<close> is not caught and leaves the function.
\<close>

definition record_failure :: "env \<Rightarrow> json \<Rightarrow> world \<Rightarrow> (py_error + json) \<times> world" where
  "record_failure env state w =
     (case state of
        JObj kvs \<Rightarrow>
          (case dict_get kvs SOURCE (JObj []) of
             JObj s \<Rightarrow>
               (case as_int (dict_get s ''consecutive_failures'' (JInt 0)) of
                  None \<Rightarrow> (Inl (TypeError ''unsupported operand type(s) for +''), w)
                | Some n \<Rightarrow>
                    let s = dict_set s ''consecutive_failures'' (JInt (n + 1));
                        s = dict_set s ''last_attempt'' (JStr (now env));
                        s = (if n + 1 \<ge> MAX_FAILURES
                             then dict_set s ''kill_switch'' (JBool True) else s);
                        state = JObj (dict_set kvs SOURCE (JObj s))
                    in (case save_state env state w of
                          (Some e, w') \<Rightarrow> (Inl e, w')
                        | (None, w') \<Rightarrow> (Inr state, w')))
           | _ \<Rightarrow> (Inl (AttributeError ''get''), w))
      | _ \<Rightarrow> (Inl (AttributeError ''setdefault''), w))"

text \<open>\<^verbatim>\<open>_record_success(state)\<close>: item assignment needs the entry to be a dict or a list.\<close>

definition record_success :: "env \<Rightarrow> json \<Rightarrow> world \<Rightarrow> (py_error + json) \<times> world" where
  "record_success env state w =
     (case state of
        JObj kvs \<Rightarrow>
          (case dict_get kvs SOURCE (JObj []) of
             JObj s \<Rightarrow>
               let s = dict_set s ''consecutive_failures'' (JInt 0);
                   s = dict_set s ''kill_switch'' (JBool False);
                   s = dict_set s ''last_success'' (JStr (now env));
                   s = dict_set s ''last_attempt'' (JStr (now env));
                   state = JObj (dict_set kvs SOURCE (JObj s))
               in (case save_state env state w of
                     (Some e, w') \<Rightarrow> (Inl e, w')
                   | (None, w') \<Rightarrow> (Inr state, w'))
           | JArr xs \<Rightarrow> (Inl (TypeError ''list indices must be integers or slices, not str''), w)
           | _ \<Rightarrow> (Inl (TypeError ''object does not support item assignment''), w))
      | _ \<Rightarrow> (Inl (AttributeError ''setdefault''), w))"

subsection \<open>Normalisation helpers\<close>

text \<open>
  The argument of \<^verbatim>\<open>_to_utc_iso\<close>: \<^verbatim>\<open>None\<close>, a string, a \<^verbatim>\<open>datetime\<close>, a plain \<^verbatim>\<open>date\<close>, or
  a value of another type (which has no \<^verbatim>\<open>year\<close>).
\<close>

datatype dt_value = DtNone | DtStr string | DtDatetime datetime | DtDate int int int | DtOther

text \<open>The last three lines of \<^verbatim>\<open>_to_utc_iso\<close>: a naive \<^verbatim>\<open>datetime\<close> is taken as UTC.\<close>

definition utc_iso_of :: "libs \<Rightarrow> datetime \<Rightarrow> string" where
  "utc_iso_of L d = utc_isoformat L (if tzinfo d = None then d\<lparr>tzinfo := Some 0\<rparr> else d)"

definition to_utc_iso :: "libs \<Rightarrow> dt_value \<Rightarrow> py_error + string option" where
  "to_utc_iso L dt_value =
     (case dt_value of
        DtNone \<Rightarrow> Inr None
      | DtStr s \<Rightarrow>
          (case dateutil_parse L s of
             None \<Rightarrow> Inr None
           | Some d \<Rightarrow> Inr (Some (utc_iso_of L d)))
      | DtDatetime d \<Rightarrow> Inr (Some (utc_iso_of L d))
      | DtDate y m d \<Rightarrow>
          Inr (Some (utc_iso_of L
            \<lparr>dt_year = y, dt_month = m, dt_day = d, dt_hour = 0, dt_minute = 0,
             dt_second = 0, dt_microsecond = 0, tzinfo = Some 0\<rparr>))
      | DtOther \<Rightarrow> Inl (AttributeError ''year''))"

text \<open>A value of the API's JSON as the argument of \<^verbatim>\<open>_to_utc_iso\<close>.\<close>

definition json_dt :: "json \<Rightarrow> dt_value" where
  "json_dt v = (case v of JNull \<Rightarrow> DtNone | JStr s \<Rightarrow> DtStr s | _ \<Rightarrow> DtOther)"

text \<open>\<^verbatim>\<open>strip_html(v)\<close> on a value of the API's JSON: \<^verbatim>\<open>re.sub\<close> needs a string.\<close>

definition strip_html_json :: "json \<Rightarrow> py_error + string option" where
  "strip_html_json v =
     (if \<not> truthy v then Inr None
      else case v of
             JStr s \<Rightarrow> Inr (strip_html (Some s))
           | _ \<Rightarrow> Inl (TypeError ''expected string or bytes-like object''))"

text \<open>The strings of a list handed to \<^verbatim>\<open>str.join\<close>, which needs every item to be one.\<close>

fun strs_of :: "json list \<Rightarrow> py_error + string list" where
  "strs_of [] = Inr []"
| "strs_of (JStr s # xs) = bind_exc (strs_of xs) (\<lambda>ss. Inr (s # ss))"
| "strs_of (x # xs) = Inl (TypeError ''sequence item: expected str instance'')"

text \<open>The \<^verbatim>\<open>organization\<close> and \<^verbatim>\<open>category\<close> blocks of \<^verbatim>\<open>_normalize_api_event\<close>.\<close>

definition api_organization :: "(string \<times> json) list \<Rightarrow> py_error + string option" where
  "api_organization raw =
     (let org = py_or (py_or (dict_get raw ''organizationName'' JNull)
                             (dict_get raw ''organizationId'' JNull)) (JStr []);
          org = (case org of
                   JInt n \<Rightarrow> JStr (str_int n)
                 | JBool b \<Rightarrow> JStr (if b then ''True'' else ''False'')
                 | _ \<Rightarrow> org)
      in bind_exc (py_strip org) (\<lambda>org. Inr (or_None org)))"

definition api_category :: "(string \<times> json) list \<Rightarrow> py_error + string option" where
  "api_category raw =
     (let categories = py_or (py_or (dict_get raw ''categoryNames'' JNull)
                                    (dict_get raw ''categoryName'' JNull)) (JArr []);
          categories = (case categories of JStr s \<Rightarrow> JArr [JStr s] | _ \<Rightarrow> categories)
      in bind_exc (py_iter categories) (\<lambda>cs.
         bind_exc (strs_of (filter truthy cs)) (\<lambda>ss.
         Inr (or_None (strip (py_join '', '' ss))))))"

text \<open>
  \<^verbatim>\<open>_normalize_api_event(raw)\<close>: \<open>Inr None\<close> is the \<^verbatim>\<open>None\<close> it returns for a record it
  drops, \<open>Inl\<close> an exception that leaves it.
\<close>

definition normalize_api_event :: "libs \<Rightarrow> string \<Rightarrow> json \<Rightarrow> py_error + event option" where
  "normalize_api_event L now_iso raw_json =
     (case raw_json of
        JObj raw \<Rightarrow>
          bind_exc (py_strip (py_or (dict_get raw ''name'' JNull) (JStr []))) (\<lambda>ttl.
          if ttl = [] then Inr None
          else
          bind_exc (to_utc_iso L (json_dt (dict_get raw ''startsOn'' JNull))) (\<lambda>start.
          case start of None \<Rightarrow> Inr None | Some start_iso \<Rightarrow>
          if start_iso = [] then Inr None
          else
          bind_exc (to_utc_iso L (json_dt (dict_get raw ''endsOn'' JNull))) (\<lambda>end_iso.
          bind_exc (py_strip (py_or (dict_get raw ''location'' JNull) (JStr []))) (\<lambda>loc.
          bind_exc (api_organization raw) (\<lambda>org.
          bind_exc (api_category raw) (\<lambda>cat.
          bind_exc (strip_html_json (dict_get raw ''description'' JNull)) (\<lambda>descr.
          let numeric_id = dict_get raw ''id'' JNull;
              url = (if truthy numeric_id
                     then ''https://rutgers.campuslabs.com/engage/event/'' @ py_str L numeric_id
                     else API_URL)
          in Inr (Some
               \<lparr>event_id = make_event_id L ttl start_iso SOURCE,
                source = SOURCE,
                title = ttl,
                description = descr,
                start_time = start_iso,
                end_time = end_iso,
                location = or_None loc,
                campus = infer_campus (or_None loc),
                organization = org,
                category = cat,
                source_url = url,
                last_seen = now_iso\<rparr>))))))))
      | _ \<Rightarrow> Inl (AttributeError ''get''))"

text \<open>\<^verbatim>\<open>str(component.get(key) or "")\<close>\<close>

definition str_or_empty :: "string option \<Rightarrow> string" where
  "str_or_empty v = (case v of None \<Rightarrow> [] | Some s \<Rightarrow> s)"

text \<open>\<^verbatim>\<open>prop.dt if prop else None\<close> as the argument of \<^verbatim>\<open>_to_utc_iso\<close>.\<close>

definition ical_dt_value :: "ical_dt option \<Rightarrow> dt_value" where
  "ical_dt_value p =
     (case p of
        None \<Rightarrow> DtNone
      | Some (IcalDatetime d) \<Rightarrow> DtDatetime d
      | Some (IcalDate y m d) \<Rightarrow> DtDate y m d)"

text \<open>\<^verbatim>\<open>_normalize_ical_event(component)\<close>\<close>

definition normalize_ical_event :: "libs \<Rightarrow> string \<Rightarrow> component \<Rightarrow> py_error + event option" where
  "normalize_ical_event L now_iso c =
     (let ttl = strip (str_or_empty (SUMMARY c)) in
      if ttl = [] then Inr None
      else
      bind_exc (to_utc_iso L (ical_dt_value (DTSTART c))) (\<lambda>start.
      case start of None \<Rightarrow> Inr None | Some start_iso \<Rightarrow>
      if start_iso = [] then Inr None
      else
      bind_exc (to_utc_iso L (ical_dt_value (DTEND c))) (\<lambda>end_iso.
      let loc = or_None (strip (str_or_empty (LOCATION c)));
          descr = strip_html (or_None (strip (str_or_empty (DESCRIPTION c))));
          url = (let u = strip (str_or_empty (URL c)) in if u = [] then ICAL_URL else u)
      in Inr (Some
           \<lparr>event_id = make_event_id L ttl start_iso SOURCE,
            source = SOURCE,
            title = ttl,
            description = descr,
            start_time = start_iso,
            end_time = end_iso,
            location = loc,
            campus = infer_campus loc,
            organization = None,
            category = None,
            source_url = url,
            last_seen = now_iso\<rparr>))))"

subsection \<open>Fetching logic\<close>

text \<open>The \<^verbatim>\<open>for raw in raw_list\<close> loop of \<^verbatim>\<open>_fetch_via_api\<close>, appending to \<open>events\<close>.\<close>

fun api_normalize_list :: "libs \<Rightarrow> string \<Rightarrow> json list \<Rightarrow> event list \<Rightarrow> py_error + event list" where
  "api_normalize_list L now_iso [] events = Inr events"
| "api_normalize_list L now_iso (raw # raws) events =
     (case normalize_api_event L now_iso raw of
        Inl e \<Rightarrow> Inl e
      | Inr None \<Rightarrow> api_normalize_list L now_iso raws events
      | Inr (Some normalized) \<Rightarrow> api_normalize_list L now_iso raws (events @ [normalized]))"

text \<open>
  The body of the \<^verbatim>\<open>while True\<close> loop of \<^verbatim>\<open>_fetch_via_api\<close> from \<^verbatim>\<open>data = resp.json()\<close>
  on: the events so far and whether the loop breaks. \<^verbatim>\<open>data.get\<close> needs a dict, so the
  alternative \<^verbatim>\<open>data if isinstance(data, list) else []\<close> is only reached with a dict and
  is \<^verbatim>\<open>[]\<close>; \<^verbatim>\<open>len(raw_list)\<close> is only evaluated when both totals are falsy.
\<close>

definition api_page :: "libs \<Rightarrow> string \<Rightarrow> json \<Rightarrow> event list \<Rightarrow> py_error + (event list \<times> bool)" where
  "api_page L now_iso data events =
     bind_exc (py_get data ''value'' JNull) (\<lambda>v.
     let raw_list = py_or v (JArr []) in
     bind_exc (py_get data ''totalItems'' JNull) (\<lambda>total_items.
     bind_exc (py_get data ''@odata.count'' JNull) (\<lambda>odata_count.
     bind_exc (if truthy (py_or total_items odata_count) then Inr (py_or total_items odata_count)
               else bind_exc (py_len raw_list) (\<lambda>n. Inr (JInt (int n)))) (\<lambda>total.
     bind_exc (py_iter raw_list) (\<lambda>raws.
     bind_exc (api_normalize_list L now_iso raws events) (\<lambda>events.
     case as_int total of
       None \<Rightarrow> Inl (TypeError ''>= not supported between instances'')
     | Some t \<Rightarrow> Inr (events, int (length events) \<ge> t \<or> \<not> truthy raw_list)))))))"

text \<open>
  The \<^verbatim>\<open>while True\<close> loop of \<^verbatim>\<open>_fetch_via_api\<close>, with the requests it has sent. Nothing
  bounds the number of pages (a server that keeps answering with records that are all
  dropped and a larger total is asked forever), so the loop is a partial function:
  \<open>None\<close> is a loop that never returns.
\<close>

partial_function (option) api_loop ::
  "libs \<Rightarrow> env \<Rightarrow> nat \<Rightarrow> event list \<Rightarrow> effect list \<Rightarrow> ((py_error + event list) \<times> effect list) option"
where
  "api_loop L env page events reqs =
     (case api_server env (page * PAGE_SIZE) of
        ConnectionFailed msg \<Rightarrow>
          Some (Inl (PyExc ''ConnectionError'' msg), reqs @ [ApiRequest (page * PAGE_SIZE)])
      | Response status msg body \<Rightarrow>
          if 400 \<le> status \<and> status < 600
          then Some (Inl (HTTPError status msg), reqs @ [ApiRequest (page * PAGE_SIZE)])
          else
            (case body of
               Inl m \<Rightarrow>
                 Some (Inl (PyExc ''JSONDecodeError'' m), reqs @ [ApiRequest (page * PAGE_SIZE)])
             | Inr data \<Rightarrow>
                 (case api_page L (now env) data events of
                    Inl e \<Rightarrow> Some (Inl e, reqs @ [ApiRequest (page * PAGE_SIZE)])
                  | Inr (events', stop) \<Rightarrow>
                      if stop then Some (Inr events', reqs @ [ApiRequest (page * PAGE_SIZE)])
                      else api_loop L env (page + 1) events'
                             (reqs @ [ApiRequest (page * PAGE_SIZE)]))))"

declare api_loop.simps [code]

text \<open>\<^verbatim>\<open>_fetch_via_api()\<close>: the events or the exception, and the requests sent.\<close>

definition fetch_via_api :: "libs \<Rightarrow> env \<Rightarrow> ((py_error + event list) \<times> effect list) option" where
  "fetch_via_api L env = api_loop L env 0 [] []"

text \<open>The loop over \<^verbatim>\<open>cal.walk()\<close> of \<^verbatim>\<open>_fetch_via_ical\<close>.\<close>

fun ical_normalize_list :: "libs \<Rightarrow> string \<Rightarrow> component list \<Rightarrow> event list \<Rightarrow> py_error + event list" where
  "ical_normalize_list L now_iso [] events = Inr events"
| "ical_normalize_list L now_iso (c # cs) events =
     (if c_name c = ''VEVENT''
      then (case normalize_ical_event L now_iso c of
              Inl e \<Rightarrow> Inl e
            | Inr None \<Rightarrow> ical_normalize_list L now_iso cs events
            | Inr (Some normalized) \<Rightarrow> ical_normalize_list L now_iso cs (events @ [normalized]))
      else ical_normalize_list L now_iso cs events)"

text \<open>\<^verbatim>\<open>_fetch_via_ical()\<close>: one request.\<close>

definition fetch_via_ical :: "libs \<Rightarrow> env \<Rightarrow> (py_error + event list) \<times> effect list" where
  "fetch_via_ical L env =
     (case ical_server env of
        ConnectionFailed msg \<Rightarrow> (Inl (PyExc ''ConnectionError'' msg), [IcalRequest])
      | Response status msg body \<Rightarrow>
          if 400 \<le> status \<and> status < 600 then (Inl (HTTPError status msg), [IcalRequest])
          else
            (case body of
               Inl m \<Rightarrow> (Inl (PyExc ''ValueError'' m), [IcalRequest])
             | Inr cal \<Rightarrow> (ical_normalize_list L (now env) cal [], [IcalRequest])))"

subsection \<open>Supabase upsert\<close>

text \<open>
  The \<^verbatim>\<open>events\<close> table is the list of its rows. \<^verbatim>\<open>_get_stored_count(client)\<close> counts the
  rows of this source.
\<close>

definition get_stored_count :: "env \<Rightarrow> world \<Rightarrow> (py_error + nat) \<times> world" where
  "get_stored_count env w =
     (let w' = w\<lparr>trace := trace w @ [StoreCount]\<rparr> in
      case count_error env of
        Some msg \<Rightarrow> (Inl (PyExc ''APIError'' msg), w')
      | None \<Rightarrow> (Inr (length (filter (\<lambda>row. source row = SOURCE) (store w))), w'))"

text \<open>The deduplication loop of \<^verbatim>\<open>_upsert_events\<close>, with its \<open>seen\<close> and \<open>deduped\<close>.\<close>

fun dedupe_loop :: "event list \<Rightarrow> string set \<Rightarrow> event list \<Rightarrow> event list" where
  "dedupe_loop [] seen deduped = deduped"
| "dedupe_loop (e # es) seen deduped =
     (if event_id e \<notin> seen
      then dedupe_loop es (insert (event_id e) seen) (deduped @ [e])
      else dedupe_loop es seen deduped)"

text \<open>
  \<^verbatim>\<open>upsert(events, on_conflict="event_id")\<close> on the table: a row whose \<open>event_id\<close> is
  stored replaces the stored row, another row is added. Postgres rejects a batch that
  holds one \<open>event_id\<close> twice, as the comment in \<^verbatim>\<open>_upsert_events\<close> says.
\<close>

definition upsert_row :: "event list \<Rightarrow> event \<Rightarrow> event list" where
  "upsert_row rows e =
     (if event_id e \<in> event_id ` set rows
      then map (\<lambda>row. if event_id row = event_id e then e else row) rows
      else rows @ [e])"

definition table_upsert :: "event list \<Rightarrow> event list \<Rightarrow> py_error + event list" where
  "table_upsert rows batch =
     (if distinct (map event_id batch) then Inr (foldl upsert_row rows batch)
      else Inl (PyExc ''APIError''
                  ''ON CONFLICT DO UPDATE command cannot affect row a second time''))"

text \<open>\<^verbatim>\<open>_upsert_events(client, events)\<close>\<close>

definition upsert_events :: "env \<Rightarrow> event list \<Rightarrow> world \<Rightarrow> (py_error + nat \<times> nat) \<times> world" where
  "upsert_events env events w =
     (if events = [] then (Inr (0, 0), w)
      else
        let events = dedupe_loop events {} [];
            ids = map event_id events;
            w1 = w\<lparr>trace := trace w @ [StoreSelect ids]\<rparr>
        in case select_error env of
             Some msg \<Rightarrow> (Inl (PyExc ''APIError'' msg), w1)
           | None \<Rightarrow>
               let existing_ids = event_id ` set (filter (\<lambda>row. event_id row \<in> set ids) (store w1));
                   inserted = length (filter (\<lambda>e. event_id e \<notin> existing_ids) events);
                   updated = length events - inserted;
                   w2 = w1\<lparr>trace := trace w1 @ [StoreUpsert events]\<rparr>
               in (case upsert_error env of
                     Some msg \<Rightarrow> (Inl (PyExc ''APIError'' msg), w2)
                   | None \<Rightarrow>
                       (case table_upsert (store w2) events of
                          Inl e \<Rightarrow> (Inl e, w2)
                        | Inr rows \<Rightarrow> (Inr (inserted, updated), w2\<lparr>store := rows\<rparr>))))"

subsection \<open>Public entry point\<close>

text \<open>The summary dict \<^verbatim>\<open>run\<close> returns; \<open>fetch_source\<close> is its \<^verbatim>\<open>"source"\<close>.\<close>

record result =
  fetched :: nat
  inserted :: nat
  updated :: nat
  fetch_source :: string
  error :: "string option"

definition kill_switch_msg :: "libs \<Rightarrow> json \<Rightarrow> string" where
  "kill_switch_msg L failures =
     ''Kill switch is active for '' @ [CHR 39] @ SOURCE @ [CHR 39] @ '' after ''
       @ py_str L failures @ '' consecutive ''
       @ ''failures. Reset backend/state.json manually to resume.''"

text \<open>The dash of the message is U+2014, three bytes in UTF-8.\<close>

definition refuse_msg :: "nat \<Rightarrow> string" where
  "refuse_msg stored =
     ''Fetched 0 events but '' @ str_nat stored @ '' are stored. ''
       @ ''Refusing to wipe data '' @ [CHR 0xE2, CHR 0x80, CHR 0x94]
       @ '' check the source manually.''"

text \<open>
  \<^verbatim>\<open>run\<close> from the safety check on (the statements after the \<^verbatim>\<open>try\<close> that fetches): the
  result or the exception that leaves \<^verbatim>\<open>run\<close>, and the world after.
\<close>

definition run_tail :: "env \<Rightarrow> json \<Rightarrow> event list \<Rightarrow> string \<Rightarrow> world \<Rightarrow> (py_error + result) \<times> world" where
  "run_tail env state events fetch_src w =
     (if length events = 0 then
        (case get_stored_count env w of
           (Inl e, w1) \<Rightarrow> (Inl e, w1)
         | (Inr stored, w1) \<Rightarrow>
             if stored \<ge> 50 then
               (case record_failure env state w1 of
                  (Inl e, w2) \<Rightarrow> (Inl e, w2)
                | (Inr state', w2) \<Rightarrow>
                    (Inr \<lparr>fetched = 0, inserted = 0, updated = 0,
                          fetch_source = fetch_src, error = Some (refuse_msg stored)\<rparr>, w2))
             else
               (case record_success env state w1 of
                  (Inl e, w2) \<Rightarrow> (Inl e, w2)
                | (Inr state', w2) \<Rightarrow>
                    (Inr \<lparr>fetched = 0, inserted = 0, updated = 0,
                          fetch_source = fetch_src, error = None\<rparr>, w2)))
      else
        (case upsert_events env events w of
           (Inl exc, w1) \<Rightarrow>
             (case record_failure env state w1 of
                (Inl e, w2) \<Rightarrow> (Inl e, w2)
              | (Inr state', w2) \<Rightarrow>
                  (Inr \<lparr>fetched = length events, inserted = 0, updated = 0,
                        fetch_source = fetch_src, error = Some (str_exc exc)\<rparr>, w2))
         | (Inr (ins, upd), w1) \<Rightarrow>
             (case record_success env state w1 of
                (Inl e, w2) \<Rightarrow> (Inl e, w2)
              | (Inr state', w2) \<Rightarrow>
                  (Inr \<lparr>fetched = length events, inserted = ins, updated = upd,
                        fetch_source = fetch_src, error = None\<rparr>, w2))))"

text \<open>
  \<^verbatim>\<open>run(client)\<close>. The two handlers of the API's exception (\<^verbatim>\<open>requests.HTTPError\<close> and
  \<^verbatim>\<open>Exception\<close>) differ in what they log only, so they are one branch here. \<open>None\<close> is a
  run that never returns, which only the loop of \<^const>\<open>fetch_via_api\<close> can cause.
\<close>

definition run :: "libs \<Rightarrow> env \<Rightarrow> world \<Rightarrow> ((py_error + result) \<times> world) option" where
  "run L env w =
     (case load_state w of
        Inl e \<Rightarrow> Some (Inl e, w)
      | Inr state \<Rightarrow>
     (case py_get state SOURCE (JObj []) of
        Inl e \<Rightarrow> Some (Inl e, w)
      | Inr source_state \<Rightarrow>
     (case py_get source_state ''kill_switch'' JNull of
        Inl e \<Rightarrow> Some (Inl e, w)
      | Inr kill_switch \<Rightarrow>
          if truthy kill_switch then
            (case py_get source_state ''consecutive_failures'' (JInt 0) of
               Inl e \<Rightarrow> Some (Inl e, w)
             | Inr failures \<Rightarrow>
                 Some (Inr \<lparr>fetched = 0, inserted = 0, updated = 0, fetch_source = ''none'',
                            error = Some (kill_switch_msg L failures)\<rparr>, w))
          else
            (case fetch_via_api L env of
               None \<Rightarrow> None
             | Some (Inr events, reqs) \<Rightarrow>
                 Some (run_tail env state events ''api'' (w\<lparr>trace := trace w @ reqs\<rparr>))
             | Some (Inl exc, reqs) \<Rightarrow>
                 (case fetch_via_ical L env of
                    (Inr events, reqs') \<Rightarrow>
                      Some (run_tail env state events ''ical''
                              (w\<lparr>trace := trace w @ reqs @ reqs'\<rparr>))
                  | (Inl ical_exc, reqs') \<Rightarrow>
                      (case record_failure env state
                              (w\<lparr>trace := trace w @ reqs @ reqs'\<rparr>) of
                         (Inl e, w') \<Rightarrow> Some (Inl e, w')
                       | (Inr state', w') \<Rightarrow>
                           Some (Inr \<lparr>fetched = 0, inserted = 0, updated = 0,
                                      fetch_source = ''none'',
                                      error = Some (str_exc ical_exc)\<rparr>, w')))))))"

subsection \<open>Deduplication as the specification words it\<close>

text \<open>
  Every \<open>event_id\<close> keeps its first occurrence, in the order of the input; the later
  events with an identifier already kept are dropped.
\<close>

function first_occurrences :: "event list \<Rightarrow> event list" where
  "first_occurrences [] = []"
| "first_occurrences (e # es) =
     e # first_occurrences (filter (\<lambda>x. event_id x \<noteq> event_id e) es)"
  by pat_completeness auto
termination
  by (relation "measure length") (auto simp: less_Suc_eq_le)

subsection \<open>The failure state of the specification\<close>

text \<open>
  The state machine of the specification, read off the state file as \<^const>\<open>run\<close> and
  \<^const>\<open>record_failure\<close> read it: the number of consecutive failures and whether the
  kill switch is active. \<open>Healthy(n)\<close> is \<open>Some (n, False)\<close>, \<open>Blocked\<close> is
  \<open>Some (n, True)\<close>; \<open>None\<close> is a file the connector cannot use.
\<close>

definition failure_state :: "world \<Rightarrow> (int \<times> bool) option" where
  "failure_state w =
     (case load_state w of
        Inr (JObj kvs) \<Rightarrow>
          (case dict_get kvs SOURCE (JObj []) of
             JObj s \<Rightarrow>
               (case as_int (dict_get s ''consecutive_failures'' (JInt 0)) of
                  Some n \<Rightarrow> Some (n, truthy (dict_get s ''kill_switch'' JNull))
                | None \<Rightarrow> None)
           | _ \<Rightarrow> None)
      | _ \<Rightarrow> None)"


subsection \<open>Example inputs\<close>

text \<open>
  Inputs for the examples below. The library functions are given on the values the
  examples use: the digests are the ones \<^verbatim>\<open>hashlib\<close> computes for the three messages, and
  the one time stamp is parsed and rendered as \<^verbatim>\<open>dateutil\<close> and \<^verbatim>\<open>datetime\<close> do; a
  placeholder stands for every other argument.
\<close>

definition example_datetime :: datetime where
  "example_datetime =
     \<lparr>dt_year = 2025, dt_month = 3, dt_day = 1, dt_hour = 18, dt_minute = 0,
      dt_second = 0, dt_microsecond = 0, tzinfo = Some 0\<rparr>"

definition example_libs :: libs where
  "example_libs =
     \<lparr>sha256_hexdigest =
        (\<lambda>b. if b = ''Chess Club|2025-03-01T18:00:00+00:00|getinvolved''
             then ''b49d94d558f3c8838f425d181286962cf6f4fa79561d56eea5da7449d7d3c64d''
             else if b = ''Career Fair|2025-03-01T18:00:00+00:00|getinvolved''
             then ''d73d0cd03397debfd761322709d83a35b5929599080d26e6f76d0479a0ea774c''
             else if b = ''Study Night|2025-03-01T18:00:00+00:00|getinvolved''
             then ''447666d14f17ff9f6f189ef685b1f6744a2e979f247a16be5633440e62be1c3f''
             else replicate 64 (CHR ''0'')),
      dateutil_parse =
        (\<lambda>s. if s = ''2025-03-01T18:00:00Z'' then Some example_datetime else None),
      utc_isoformat =
        (\<lambda>d. if d = example_datetime then ''2025-03-01T18:00:00+00:00''
             else ''1970-01-01T00:00:00+00:00''),
      py_repr = (\<lambda>j. ''[]'')\<rparr>"

definition example_api_record :: "(string \<times> json) list" where
  "example_api_record =
     [(''id'', JInt 4711), (''name'', JStr '' Chess Club ''),
      (''startsOn'', JStr ''2025-03-01T18:00:00Z''), (''endsOn'', JStr ''2025-03-01T18:00:00Z''),
      (''location'', JStr ''Zoom Meeting''), (''organizationName'', JStr ''Chess Society''),
      (''categoryNames'', JArr [JStr ''Games'', JStr ''Social'']),
      (''description'', JStr ''<p>Weekly <b>blitz</b> night</p>'')]"

definition example_component :: component where
  "example_component =
     \<lparr>c_name = ''VEVENT'', SUMMARY = Some ''Career Fair'',
      DTSTART = Some (IcalDatetime example_datetime),
      DTEND = Some (IcalDatetime example_datetime),
      LOCATION = Some ''Zoom Meeting'', DESCRIPTION = None, URL = None\<rparr>"

definition example_world :: world where
  "example_world = \<lparr>STATE_FILE = Missing, store = [], trace = []\<rparr>"

text \<open>The API answers 429 and the calendar feed cannot be reached.\<close>

definition example_env_down :: env where
  "example_env_down =
     \<lparr>now = ''2025-02-01T00:00:00+00:00'',
      api_server = (\<lambda>skip. Response 429 ''429 Client Error: Too Many Requests'' (Inl [])),
      ical_server = ConnectionFailed ''Connection refused'',
      count_error = None, select_error = None, upsert_error = None,
      state_write = Written\<rparr>"

text \<open>A state file with the kill switch on, as three failed runs leave it.\<close>

definition example_blocked_world :: world where
  "example_blocked_world =
     \<lparr>STATE_FILE = Contents (JObj [(''getinvolved'',
        JObj [(''consecutive_failures'', JInt 3), (''kill_switch'', JBool True),
              (''last_success'', JNull), (''last_attempt'', JStr ''2025-02-01T00:00:00+00:00'')])]),
      store = [], trace = []\<rparr>"

text \<open>Two normalized events, and a later copy of the first from another raw record.\<close>

definition example_event :: event where
  "example_event =
     \<lparr>event_id = ''b49d94d558f3c8838f425d181286962c'',
      source = ''getinvolved'', title = ''Chess Club'',
      description = Some ''Weekly blitz night'',
      start_time = ''2025-03-01T18:00:00+00:00'',
      end_time = Some ''2025-03-01T18:00:00+00:00'',
      location = Some ''Zoom Meeting'', campus = ''Online'',
      organization = Some ''Chess Society'',
      category = Some ''Games, Social'',
      source_url = ''https://rutgers.campuslabs.com/engage/event/4711'',
      last_seen = ''2025-02-01T00:00:00+00:00''\<rparr>"

definition example_event2 :: event where
  "example_event2 =
     \<lparr>event_id = ''d73d0cd03397debfd761322709d83a35'',
      source = ''getinvolved'', title = ''Career Fair'',
      description = None,
      start_time = ''2025-03-01T18:00:00+00:00'',
      end_time = Some ''2025-03-01T18:00:00+00:00'',
      location = Some ''Zoom Meeting'', campus = ''Online'',
      organization = None, category = None,
      source_url = ''https://rutgers.campuslabs.com/engage/events/ical'',
      last_seen = ''2025-02-01T00:00:00+00:00''\<rparr>"

definition example_event_again :: event where
  "example_event_again =
     example_event\<lparr>description := Some ''Weekly blitz night (page 2)'',
                   source_url := ''https://rutgers.campuslabs.com/engage/event/4712''\<rparr>"

text \<open>A store that holds an older row of the second event.\<close>

definition example_stored_world :: world where
  "example_stored_world =
     \<lparr>STATE_FILE = Missing,
      store = [example_event2\<lparr>last_seen := ''2025-01-01T00:00:00+00:00''\<rparr>],
      trace = []\<rparr>"

definition example_event3 :: event where
  "example_event3 =
     example_event2\<lparr>event_id := ''447666d14f17ff9f6f189ef685b1f674'', title := ''Study Night''\<rparr>"

text \<open>The API answers 429 and the calendar feed holds two events.\<close>

definition example_env_fallback :: env where
  "example_env_fallback =
     \<lparr>now = ''2025-02-01T00:00:00+00:00'',
      api_server = (\<lambda>skip. Response 429 ''429 Client Error: Too Many Requests'' (Inl [])),
      ical_server = Response 200 [] (Inr
        [\<lparr>c_name = ''VCALENDAR'', SUMMARY = None, DTSTART = None, DTEND = None,
          LOCATION = None, DESCRIPTION = None, URL = None\<rparr>,
         example_component,
         example_component\<lparr>SUMMARY := Some ''Study Night''\<rparr>]),
      count_error = None, select_error = None, upsert_error = None,
      state_write = Written\<rparr>"



subsection \<open>Markup, as the specification speaks of it\<close>

text \<open>
  A string holds a tag when \<^verbatim>\<open><[^>]+>\<close> matches somewhere in it: at some \<^verbatim>\<open><\<close> the run of
  characters up to the next \<^verbatim>\<open>>\<close> is not empty and that \<^verbatim>\<open>>\<close> is there.
\<close>

fun has_tag :: "string \<Rightarrow> bool" where
  "has_tag [] = False"
| "has_tag (c # cs) =
     ((c = CHR ''<'' \<and> takeWhile (\<lambda>x. x \<noteq> CHR ''>'') cs \<noteq> []
         \<and> dropWhile (\<lambda>x. x \<noteq> CHR ''>'') cs \<noteq> [])
      \<or> has_tag cs)"

text \<open>A string that is entirely markup or whitespace: tags and whitespace, nothing else.\<close>

function only_markup :: "string \<Rightarrow> bool" where
  "only_markup [] = True"
| "only_markup (c # cs) =
     (if is_space c then only_markup cs
      else c = CHR ''<'' \<and> takeWhile (\<lambda>x. x \<noteq> CHR ''>'') cs \<noteq> []
           \<and> dropWhile (\<lambda>x. x \<noteq> CHR ''>'') cs \<noteq> []
           \<and> only_markup (tl (dropWhile (\<lambda>x. x \<noteq> CHR ''>'') cs)))"
  by pat_completeness auto
termination
  by (relation "measure length")
     (auto simp: less_Suc_eq_le intro: le_trans [OF diff_le_self length_dropWhile_le])

text \<open>Two whitespace characters in a row.\<close>

fun adjacent_spaces :: "string \<Rightarrow> bool" where
  "adjacent_spaces (c # d # cs) = ((is_space c \<and> is_space d) \<or> adjacent_spaces (d # cs))"
| "adjacent_spaces _ = False"

section \<open>Properties\<close>

subsection \<open>Campus inference\<close>

text \<open>
  C5. A location that starts, case-insensitively, with one of the to-be-determined
  markers (\<open>tbd\<close>, \<open>to be determined\<close>, \<open>to be announced\<close>, \<open>tba\<close>) is inferred as
  \<open>Unknown\<close> and never as \<open>Off-Campus\<close>, whatever online, campus or off-campus keywords
  the rest of the string holds.
\<close>

theorem infer_campus_tbd_unknown:
  assumes "pat \<in> set TBD_PATTERNS" and "startswith (lower loc) pat"
  shows "infer_campus (Some loc) = ''Unknown'' \<and> infer_campus (Some loc) \<noteq> ''Off-Campus''"
proof -
  from assms have "list_ex (\<lambda>pat. startswith (lower loc) pat) TBD_PATTERNS"
    unfolding list_ex_iff by blast
  then have "infer_campus (Some loc) = ''Unknown''"
    by (simp add: infer_campus_def)
  then show ?thesis by simp
qed

text \<open>
  At \<open>TBD - Zoom or Newark\<close>, which also holds an online keyword and an off-campus one.
\<close>

theorem infer_campus_tbd_unknown_witness:
  "''tbd'' \<in> set TBD_PATTERNS
   \<and> startswith (lower ''TBD - Zoom or Newark'') ''tbd''
   \<and> py_in ''zoom'' (lower ''TBD - Zoom or Newark'')
   \<and> py_in (lower ''Newark'') (lower ''TBD - Zoom or Newark'')
   \<and> infer_campus (Some ''TBD - Zoom or Newark'') = ''Unknown''
   \<and> infer_campus (Some ''TBD - Zoom or Newark'') \<noteq> ''Off-Campus''"
proof -
  have low: "lower ''TBD - Zoom or Newark'' = ''tbd - zoom or newark''"
    by (simp add: lower_def char_lower_def)
  have h1: "''tbd'' \<in> set TBD_PATTERNS"
    by (simp add: TBD_PATTERNS_def)
  have h2: "startswith (lower ''TBD - Zoom or Newark'') ''tbd''"
    by (simp add: low startswith_def)
  have h3: "py_in ''zoom'' (lower ''TBD - Zoom or Newark'')"
    by (simp add: low startswith_def)
  have h4: "py_in (lower ''Newark'') (lower ''TBD - Zoom or Newark'')"
    by (simp add: low startswith_def lower_def char_lower_def)
  from infer_campus_tbd_unknown [OF h1 h2] h1 h2 h3 h4 show ?thesis by blast
qed

subsection \<open>Normalisation\<close>

lemma bind_exc_Inr_E:
  assumes "bind_exc m f = Inr y"
  obtains v where "m = Inr v" and "f v = Inr y"
  using assms by (cases m) (simp_all add: bind_exc_def)

text \<open>What an accepted API record went through, and the converse.\<close>

lemma normalize_api_event_SomeE:
  assumes "normalize_api_event L now_iso raw_json = Inr (Some e)"
  obtains raw ttl start_iso end_iso loc org cat descr where
    "raw_json = JObj raw"
    "py_strip (py_or (dict_get raw ''name'' JNull) (JStr [])) = Inr ttl" "ttl \<noteq> []"
    "to_utc_iso L (json_dt (dict_get raw ''startsOn'' JNull)) = Inr (Some start_iso)"
    "start_iso \<noteq> []"
    "to_utc_iso L (json_dt (dict_get raw ''endsOn'' JNull)) = Inr end_iso"
    "py_strip (py_or (dict_get raw ''location'' JNull) (JStr [])) = Inr loc"
    "api_organization raw = Inr org"
    "api_category raw = Inr cat"
    "strip_html_json (dict_get raw ''description'' JNull) = Inr descr"
    "e = \<lparr>event_id = make_event_id L ttl start_iso SOURCE,
          source = SOURCE, title = ttl, description = descr, start_time = start_iso,
          end_time = end_iso, location = or_None loc, campus = infer_campus (or_None loc),
          organization = org, category = cat,
          source_url =
            (if truthy (dict_get raw ''id'' JNull)
             then ''https://rutgers.campuslabs.com/engage/event/''
                    @ py_str L (dict_get raw ''id'' JNull)
             else API_URL),
          last_seen = now_iso\<rparr>"
proof (cases raw_json)
  case (JObj raw)
  with assms that show ?thesis
    unfolding normalize_api_event_def
    by (auto elim!: bind_exc_Inr_E split: if_splits option.splits simp: Let_def)
qed (use assms in \<open>simp_all add: normalize_api_event_def\<close>)

lemma normalize_api_event_SomeI:
  assumes
    "py_strip (py_or (dict_get raw ''name'' JNull) (JStr [])) = Inr ttl" "ttl \<noteq> []"
    "to_utc_iso L (json_dt (dict_get raw ''startsOn'' JNull)) = Inr (Some start_iso)"
    "start_iso \<noteq> []"
    "to_utc_iso L (json_dt (dict_get raw ''endsOn'' JNull)) = Inr end_iso"
    "py_strip (py_or (dict_get raw ''location'' JNull) (JStr [])) = Inr loc"
    "api_organization raw = Inr org"
    "api_category raw = Inr cat"
    "strip_html_json (dict_get raw ''description'' JNull) = Inr descr"
  shows "normalize_api_event L now_iso (JObj raw) = Inr (Some
        \<lparr>event_id = make_event_id L ttl start_iso SOURCE,
          source = SOURCE, title = ttl, description = descr, start_time = start_iso,
          end_time = end_iso, location = or_None loc, campus = infer_campus (or_None loc),
          organization = org, category = cat,
          source_url =
            (if truthy (dict_get raw ''id'' JNull)
             then ''https://rutgers.campuslabs.com/engage/event/''
                    @ py_str L (dict_get raw ''id'' JNull)
             else API_URL),
          last_seen = now_iso\<rparr>)"
  using assms by (simp add: normalize_api_event_def bind_exc_def Let_def)

lemma normalize_ical_event_SomeE:
  assumes "normalize_ical_event L now_iso c = Inr (Some e)"
  obtains start_iso end_iso where
    "strip (str_or_empty (SUMMARY c)) \<noteq> []"
    "to_utc_iso L (ical_dt_value (DTSTART c)) = Inr (Some start_iso)"
    "start_iso \<noteq> []"
    "to_utc_iso L (ical_dt_value (DTEND c)) = Inr end_iso"
    "e = \<lparr>event_id = make_event_id L (strip (str_or_empty (SUMMARY c))) start_iso SOURCE,
          source = SOURCE, title = strip (str_or_empty (SUMMARY c)),
          description = strip_html (or_None (strip (str_or_empty (DESCRIPTION c)))),
          start_time = start_iso, end_time = end_iso,
          location = or_None (strip (str_or_empty (LOCATION c))),
          campus = infer_campus (or_None (strip (str_or_empty (LOCATION c)))),
          organization = None, category = None,
          source_url =
            (if strip (str_or_empty (URL c)) = [] then ICAL_URL
             else strip (str_or_empty (URL c))),
          last_seen = now_iso\<rparr>"
  using assms that unfolding normalize_ical_event_def
  by (auto elim!: bind_exc_Inr_E split: if_splits option.splits simp: Let_def)

lemma normalize_ical_event_SomeI:
  assumes
    "strip (str_or_empty (SUMMARY c)) \<noteq> []"
    "to_utc_iso L (ical_dt_value (DTSTART c)) = Inr (Some start_iso)"
    "start_iso \<noteq> []"
    "to_utc_iso L (ical_dt_value (DTEND c)) = Inr end_iso"
  shows "normalize_ical_event L now_iso c = Inr (Some
        \<lparr>event_id = make_event_id L (strip (str_or_empty (SUMMARY c))) start_iso SOURCE,
          source = SOURCE, title = strip (str_or_empty (SUMMARY c)),
          description = strip_html (or_None (strip (str_or_empty (DESCRIPTION c)))),
          start_time = start_iso, end_time = end_iso,
          location = or_None (strip (str_or_empty (LOCATION c))),
          campus = infer_campus (or_None (strip (str_or_empty (LOCATION c)))),
          organization = None, category = None,
          source_url =
            (if strip (str_or_empty (URL c)) = [] then ICAL_URL
             else strip (str_or_empty (URL c))),
          last_seen = now_iso\<rparr>)"
  using assms by (simp add: normalize_ical_event_def bind_exc_def Let_def)

text \<open>A record without a title is dropped.\<close>

lemma normalize_api_event_no_title:
  assumes "\<not> truthy (dict_get raw ''name'' JNull)
           \<or> (\<exists>s. dict_get raw ''name'' JNull = JStr s \<and> strip s = [])"
  shows "normalize_api_event L now_iso (JObj raw) = Inr None"
proof -
  have "py_strip (py_or (dict_get raw ''name'' JNull) (JStr [])) = Inr []"
    using assms by (auto simp: py_or_def py_strip_def strip_def)
  then show ?thesis
    by (simp add: normalize_api_event_def bind_exc_def)
qed

lemma normalize_ical_event_no_title:
  assumes "SUMMARY c = None \<or> (\<exists>s. SUMMARY c = Some s \<and> strip s = [])"
  shows "normalize_ical_event L now_iso c = Inr None"
  using assms
  by (auto simp: normalize_ical_event_def str_or_empty_def strip_def)

text \<open>A record without a start time that parses is dropped.\<close>

lemma to_utc_iso_no_start:
  assumes "v = JNull \<or> (\<exists>s. v = JStr s \<and> dateutil_parse L s = None)"
  shows "to_utc_iso L (json_dt v) = Inr None"
  using assms by (auto simp: to_utc_iso_def json_dt_def)

lemma normalize_api_event_no_start:
  assumes "dict_get raw ''startsOn'' JNull = JNull
           \<or> (\<exists>s. dict_get raw ''startsOn'' JNull = JStr s \<and> dateutil_parse L s = None)"
  shows "normalize_api_event L now_iso (JObj raw) \<noteq> Inr (Some e)"
proof
  assume "normalize_api_event L now_iso (JObj raw) = Inr (Some e)"
  then obtain start_iso where
    "to_utc_iso L (json_dt (dict_get raw ''startsOn'' JNull)) = Inr (Some start_iso)"
    by (auto elim: normalize_api_event_SomeE)
  with to_utc_iso_no_start [OF assms] show False by simp
qed

lemma normalize_api_event_no_start_titled:
  assumes "dict_get raw ''startsOn'' JNull = JNull
           \<or> (\<exists>s. dict_get raw ''startsOn'' JNull = JStr s \<and> dateutil_parse L s = None)"
    and "dict_get raw ''name'' JNull = JStr s'"
  shows "normalize_api_event L now_iso (JObj raw) = Inr None"
  using to_utc_iso_no_start [OF assms(1)] assms(2)
  by (simp add: normalize_api_event_def bind_exc_def py_or_def py_strip_def)

lemma normalize_ical_event_no_start:
  assumes "DTSTART c = None"
  shows "normalize_ical_event L now_iso c = Inr None"
  using assms
  by (simp add: normalize_ical_event_def to_utc_iso_def ical_dt_value_def bind_exc_def Let_def)

text \<open>Taking the end time away from an accepted record leaves it accepted.\<close>

lemma dict_get_filter_key:
  "dict_get (filter (\<lambda>kv. fst kv \<noteq> k) kvs) k' dflt
     = (if k' = k then dflt else dict_get kvs k' dflt)"
  by (induction kvs) (auto simp: dict_get_def)

lemma normalize_api_event_without_end:
  assumes "normalize_api_event L now_iso (JObj raw) = Inr (Some e)"
  shows "normalize_api_event L now_iso (JObj (filter (\<lambda>kv. fst kv \<noteq> ''endsOn'') raw))
           = Inr (Some (e\<lparr>end_time := None\<rparr>))"
proof -
  let ?raw' = "filter (\<lambda>kv. fst kv \<noteq> ''endsOn'') raw"
  have get: "\<And>k. k \<noteq> ''endsOn'' \<Longrightarrow> dict_get ?raw' k JNull = dict_get raw k JNull"
    by (simp add: dict_get_filter_key)
  have org: "api_organization ?raw' = api_organization raw"
    by (simp add: api_organization_def get)
  have cat: "api_category ?raw' = api_category raw"
    by (simp add: api_category_def get)
  have no_end: "to_utc_iso L (json_dt (dict_get ?raw' ''endsOn'' JNull)) = Inr None"
    by (simp add: dict_get_filter_key to_utc_iso_def json_dt_def)
  from assms show ?thesis
  proof (rule normalize_api_event_SomeE)
    fix raw0 ttl start_iso end_iso loc org0 cat0 descr
    assume eq: "JObj raw = JObj raw0"
      and a: "py_strip (py_or (dict_get raw0 ''name'' JNull) (JStr [])) = Inr ttl" "ttl \<noteq> []"
        "to_utc_iso L (json_dt (dict_get raw0 ''startsOn'' JNull)) = Inr (Some start_iso)"
        "start_iso \<noteq> []"
        "py_strip (py_or (dict_get raw0 ''location'' JNull) (JStr [])) = Inr loc"
        "api_organization raw0 = Inr org0"
        "api_category raw0 = Inr cat0"
        "strip_html_json (dict_get raw0 ''description'' JNull) = Inr descr"
      and e: "e = \<lparr>event_id = make_event_id L ttl start_iso SOURCE,
          source = SOURCE, title = ttl, description = descr, start_time = start_iso,
          end_time = end_iso, location = or_None loc, campus = infer_campus (or_None loc),
          organization = org0, category = cat0,
          source_url =
            (if truthy (dict_get raw0 ''id'' JNull)
             then ''https://rutgers.campuslabs.com/engage/event/''
                    @ py_str L (dict_get raw0 ''id'' JNull)
             else API_URL),
          last_seen = now_iso\<rparr>"
    from eq have raw0: "raw0 = raw" by simp
    show ?thesis
      using normalize_api_event_SomeI [of ?raw' ttl L start_iso None loc org0 cat0 descr now_iso]
            a no_end
      by (simp add: raw0 get org cat e)
  qed
qed

lemma normalize_ical_event_without_end:
  assumes "normalize_ical_event L now_iso c = Inr (Some e)"
  shows "normalize_ical_event L now_iso (c\<lparr>DTEND := None\<rparr>) = Inr (Some (e\<lparr>end_time := None\<rparr>))"
proof -
  have no_end: "to_utc_iso L (ical_dt_value (DTEND (c\<lparr>DTEND := None\<rparr>))) = Inr None"
    by (simp add: to_utc_iso_def ical_dt_value_def)
  from assms show ?thesis
  proof (rule normalize_ical_event_SomeE)
    fix start_iso end_iso
    assume a: "strip (str_or_empty (SUMMARY c)) \<noteq> []"
        "to_utc_iso L (ical_dt_value (DTSTART c)) = Inr (Some start_iso)"
        "start_iso \<noteq> []"
      and e: "e = \<lparr>event_id = make_event_id L (strip (str_or_empty (SUMMARY c))) start_iso SOURCE,
          source = SOURCE, title = strip (str_or_empty (SUMMARY c)),
          description = strip_html (or_None (strip (str_or_empty (DESCRIPTION c)))),
          start_time = start_iso, end_time = end_iso,
          location = or_None (strip (str_or_empty (LOCATION c))),
          campus = infer_campus (or_None (strip (str_or_empty (LOCATION c)))),
          organization = None, category = None,
          source_url =
            (if strip (str_or_empty (URL c)) = [] then ICAL_URL
             else strip (str_or_empty (URL c))),
          last_seen = now_iso\<rparr>"
    show ?thesis
      using normalize_ical_event_SomeI [of "c\<lparr>DTEND := None\<rparr>" L start_iso None now_iso]
            a no_end
      by (simp add: e)
  qed
qed

text \<open>
  C7. From either source format, a record whose title is absent or empty (or blank) is
  dropped, and so is a record whose start time is absent or does not parse: no event
  comes out of the normalizer. A missing end time does not reject a record: an accepted
  record without its end time is accepted too, with an absent \<open>end_time\<close>.
\<close>

theorem normalize_rejects_untitled_and_undated:
  "(\<not> truthy (dict_get raw1 ''name'' JNull)
      \<or> (\<exists>s. dict_get raw1 ''name'' JNull = JStr s \<and> strip s = [])
     \<longrightarrow> normalize_api_event L now_iso (JObj raw1) = Inr None)
   \<and> (dict_get raw2 ''startsOn'' JNull = JNull
        \<or> (\<exists>s. dict_get raw2 ''startsOn'' JNull = JStr s \<and> dateutil_parse L s = None)
     \<longrightarrow> (\<forall>e. normalize_api_event L now_iso (JObj raw2) \<noteq> Inr (Some e))
         \<and> ((\<exists>s. dict_get raw2 ''name'' JNull = JStr s)
              \<longrightarrow> normalize_api_event L now_iso (JObj raw2) = Inr None))
   \<and> (normalize_api_event L now_iso (JObj raw3) = Inr (Some e3)
     \<longrightarrow> normalize_api_event L now_iso (JObj (filter (\<lambda>kv. fst kv \<noteq> ''endsOn'') raw3))
           = Inr (Some (e3\<lparr>end_time := None\<rparr>)))
   \<and> (SUMMARY c1 = None \<or> (\<exists>s. SUMMARY c1 = Some s \<and> strip s = [])
     \<longrightarrow> normalize_ical_event L now_iso c1 = Inr None)
   \<and> (DTSTART c2 = None \<longrightarrow> normalize_ical_event L now_iso c2 = Inr None)
   \<and> (normalize_ical_event L now_iso c3 = Inr (Some e3')
     \<longrightarrow> normalize_ical_event L now_iso (c3\<lparr>DTEND := None\<rparr>)
           = Inr (Some (e3'\<lparr>end_time := None\<rparr>)))"
  using normalize_api_event_no_title [of raw1 L now_iso]
        normalize_api_event_no_start [of raw2 L now_iso]
        normalize_api_event_no_start_titled [of raw2 L _ now_iso]
        normalize_api_event_without_end [of L now_iso raw3 e3]
        normalize_ical_event_no_title [of c1 L now_iso]
        normalize_ical_event_no_start [of c2 L now_iso]
        normalize_ical_event_without_end [of L now_iso c3 e3']
  by blast

text \<open>
  On the example records: a blank title, a start time that does not parse, and the
  accepted records with their end time taken away.
\<close>

lemma example_api_record_normalized:
  "normalize_api_event example_libs ''2025-02-01T00:00:00+00:00'' (JObj example_api_record)
     = Inr (Some
         \<lparr>event_id = ''b49d94d558f3c8838f425d181286962c'',
          source = ''getinvolved'', title = ''Chess Club'',
          description = Some ''Weekly blitz night'',
          start_time = ''2025-03-01T18:00:00+00:00'',
          end_time = Some ''2025-03-01T18:00:00+00:00'',
          location = Some ''Zoom Meeting'', campus = ''Online'',
          organization = Some ''Chess Society'',
          category = Some ''Games, Social'',
          source_url = ''https://rutgers.campuslabs.com/engage/event/4711'',
          last_seen = ''2025-02-01T00:00:00+00:00''\<rparr>)"
proof -
  have ttl: "py_strip (py_or (dict_get example_api_record ''name'' JNull) (JStr []))
               = Inr ''Chess Club''"
    by (simp add: example_api_record_def dict_get_def py_or_def py_strip_def strip_def
                  is_space_def)
  have start: "to_utc_iso example_libs (json_dt (dict_get example_api_record ''startsOn'' JNull))
                 = Inr (Some ''2025-03-01T18:00:00+00:00'')"
    by (simp add: example_api_record_def dict_get_def to_utc_iso_def json_dt_def
                  example_libs_def utc_iso_of_def example_datetime_def)
  have end': "to_utc_iso example_libs (json_dt (dict_get example_api_record ''endsOn'' JNull))
                 = Inr (Some ''2025-03-01T18:00:00+00:00'')"
    by (simp add: example_api_record_def dict_get_def to_utc_iso_def json_dt_def
                  example_libs_def utc_iso_of_def example_datetime_def)
  have loc: "py_strip (py_or (dict_get example_api_record ''location'' JNull) (JStr []))
               = Inr ''Zoom Meeting''"
    by (simp add: example_api_record_def dict_get_def py_or_def py_strip_def strip_def
                  is_space_def)
  have org: "api_organization example_api_record = Inr (Some ''Chess Society'')"
    by (simp add: example_api_record_def api_organization_def dict_get_def py_or_def
                  py_strip_def strip_def is_space_def bind_exc_def or_None_def)
  have cat: "api_category example_api_record = Inr (Some ''Games, Social'')"
    by (simp add: example_api_record_def api_category_def dict_get_def py_or_def py_iter_def
                  strip_def is_space_def bind_exc_def or_None_def)
  have descr: "strip_html_json (dict_get example_api_record ''description'' JNull)
                 = Inr (Some ''Weekly blitz night'')"
    by (simp add: example_api_record_def dict_get_def strip_html_json_def strip_html_def
                  strip_def is_space_def)
  have campus: "infer_campus (Some ''Zoom Meeting'') = ''Online''"
    by (simp add: infer_campus_def lower_def char_lower_def startswith_def TBD_PATTERNS_def
                  ONLINE_KEYWORDS_def)
  have eid: "make_event_id example_libs ''Chess Club'' ''2025-03-01T18:00:00+00:00'' ''getinvolved''
               = ''b49d94d558f3c8838f425d181286962c''"
    by (simp add: make_event_id_def example_libs_def)
  have url: "dict_get example_api_record ''id'' JNull = JInt 4711"
    by (simp add: example_api_record_def dict_get_def)
  have s4711: "str_int 4711 = ''4711''"
    by (simp add: str_int_def str_nat.simps)
  show ?thesis
    using normalize_api_event_SomeI [OF ttl _ start _ end' loc org cat descr,
            of "''2025-02-01T00:00:00+00:00''"]
    by (simp add: or_None_def campus eid url py_str_def s4711 SOURCE_def)
qed

lemma example_component_normalized:
  "normalize_ical_event example_libs ''2025-02-01T00:00:00+00:00'' example_component
     = Inr (Some
         \<lparr>event_id = ''d73d0cd03397debfd761322709d83a35'',
          source = ''getinvolved'', title = ''Career Fair'',
          description = None,
          start_time = ''2025-03-01T18:00:00+00:00'',
          end_time = Some ''2025-03-01T18:00:00+00:00'',
          location = Some ''Zoom Meeting'', campus = ''Online'',
          organization = None, category = None,
          source_url = ''https://rutgers.campuslabs.com/engage/events/ical'',
          last_seen = ''2025-02-01T00:00:00+00:00''\<rparr>)"
proof -
  have ttl: "strip (str_or_empty (SUMMARY example_component)) = ''Career Fair''"
    by (simp add: example_component_def str_or_empty_def strip_def is_space_def)
  have start: "to_utc_iso example_libs (ical_dt_value (DTSTART example_component))
                 = Inr (Some ''2025-03-01T18:00:00+00:00'')"
    by (simp add: example_component_def to_utc_iso_def ical_dt_value_def
                  example_libs_def utc_iso_of_def example_datetime_def)
  have end': "to_utc_iso example_libs (ical_dt_value (DTEND example_component))
                 = Inr (Some ''2025-03-01T18:00:00+00:00'')"
    by (simp add: example_component_def to_utc_iso_def ical_dt_value_def
                  example_libs_def utc_iso_of_def example_datetime_def)
  have loc: "strip (str_or_empty (LOCATION example_component)) = ''Zoom Meeting''"
    by (simp add: example_component_def str_or_empty_def strip_def is_space_def)
  have descr: "strip (str_or_empty (DESCRIPTION example_component)) = []"
    by (simp add: example_component_def str_or_empty_def strip_def)
  have url: "strip (str_or_empty (URL example_component)) = []"
    by (simp add: example_component_def str_or_empty_def strip_def)
  have campus: "infer_campus (Some ''Zoom Meeting'') = ''Online''"
    by (simp add: infer_campus_def lower_def char_lower_def startswith_def TBD_PATTERNS_def
                  ONLINE_KEYWORDS_def)
  have eid: "make_event_id example_libs ''Career Fair'' ''2025-03-01T18:00:00+00:00'' ''getinvolved''
               = ''d73d0cd03397debfd761322709d83a35''"
    by (simp add: make_event_id_def example_libs_def)
  show ?thesis
    using normalize_ical_event_SomeI [of example_component example_libs
            "''2025-03-01T18:00:00+00:00''" "Some ''2025-03-01T18:00:00+00:00''"
            "''2025-02-01T00:00:00+00:00''"] start end'
    by (simp add: ttl loc descr url or_None_def strip_html_def campus eid SOURCE_def ICAL_URL_def)
qed

theorem normalize_rejects_untitled_and_undated_witness:
  "normalize_api_event example_libs ''2025-02-01T00:00:00+00:00''
      (JObj [(''name'', JStr ''  ''), (''startsOn'', JStr ''2025-03-01T18:00:00Z'')]) = Inr None
   \<and> normalize_api_event example_libs ''2025-02-01T00:00:00+00:00''
      (JObj [(''name'', JStr ''Chess Club''), (''startsOn'', JStr ''next week'')]) = Inr None
   \<and> normalize_api_event example_libs ''2025-02-01T00:00:00+00:00''
      (JObj (filter (\<lambda>kv. fst kv \<noteq> ''endsOn'') example_api_record))
       = Inr (Some
         \<lparr>event_id = ''b49d94d558f3c8838f425d181286962c'',
          source = ''getinvolved'', title = ''Chess Club'',
          description = Some ''Weekly blitz night'',
          start_time = ''2025-03-01T18:00:00+00:00'',
          end_time = None,
          location = Some ''Zoom Meeting'', campus = ''Online'',
          organization = Some ''Chess Society'',
          category = Some ''Games, Social'',
          source_url = ''https://rutgers.campuslabs.com/engage/event/4711'',
          last_seen = ''2025-02-01T00:00:00+00:00''\<rparr>)
   \<and> normalize_ical_event example_libs ''2025-02-01T00:00:00+00:00''
        (example_component\<lparr>SUMMARY := None\<rparr>) = Inr None
   \<and> normalize_ical_event example_libs ''2025-02-01T00:00:00+00:00''
        (example_component\<lparr>DTSTART := None\<rparr>) = Inr None
   \<and> normalize_ical_event example_libs ''2025-02-01T00:00:00+00:00''
        (example_component\<lparr>DTEND := None\<rparr>)
       = Inr (Some
         \<lparr>event_id = ''d73d0cd03397debfd761322709d83a35'',
          source = ''getinvolved'', title = ''Career Fair'',
          description = None,
          start_time = ''2025-03-01T18:00:00+00:00'',
          end_time = None,
          location = Some ''Zoom Meeting'', campus = ''Online'',
          organization = None, category = None,
          source_url = ''https://rutgers.campuslabs.com/engage/events/ical'',
          last_seen = ''2025-02-01T00:00:00+00:00''\<rparr>)"
proof -
  have h1: "\<exists>s. dict_get [(''name'', JStr ''  ''), (''startsOn'', JStr ''2025-03-01T18:00:00Z'')]
                   ''name'' JNull = JStr s \<and> strip s = []"
    by (simp add: dict_get_def strip_def is_space_def)
  have h2: "\<exists>s. dict_get [(''name'', JStr ''Chess Club''), (''startsOn'', JStr ''next week'')]
                   ''startsOn'' JNull = JStr s \<and> dateutil_parse example_libs s = None"
    by (simp add: dict_get_def example_libs_def)
  have h2': "\<exists>s. dict_get [(''name'', JStr ''Chess Club''), (''startsOn'', JStr ''next week'')]
                   ''name'' JNull = JStr s"
    by (simp add: dict_get_def)
  have h4: "SUMMARY (example_component\<lparr>SUMMARY := None\<rparr>) = None" by simp
  have h5: "DTSTART (example_component\<lparr>DTSTART := None\<rparr>) = None" by simp
  from normalize_rejects_untitled_and_undated
         [of "[(''name'', JStr ''  ''), (''startsOn'', JStr ''2025-03-01T18:00:00Z'')]"
             example_libs "''2025-02-01T00:00:00+00:00''"
             "[(''name'', JStr ''Chess Club''), (''startsOn'', JStr ''next week'')]"
             example_api_record _
             "example_component\<lparr>SUMMARY := None\<rparr>"
             "example_component\<lparr>DTSTART := None\<rparr>"
             example_component _]
       h1 h2 h2' h4 h5 example_api_record_normalized example_component_normalized
  show ?thesis by simp
qed

subsection \<open>Stable event ID\<close>

lemma normalize_api_event_id:
  assumes "normalize_api_event L now_iso raw = Inr (Some e)"
  shows "event_id e = make_event_id L (title e) (start_time e) (source e)"
  using assms by (rule normalize_api_event_SomeE) simp

lemma normalize_ical_event_id:
  assumes "normalize_ical_event L now_iso c = Inr (Some e)"
  shows "event_id e = make_event_id L (title e) (start_time e) (source e)"
  using assms by (rule normalize_ical_event_SomeE) simp

text \<open>
  C9. The identifier is the first 32 characters of the SHA-256 hex digest of the three
  fields joined with \<open>|\<close> (32 characters, as the digest has 64). It is a function of the
  three fields and of nothing else: equal fields give equal identifiers, neither the
  clock nor the state enters it, and the identifier both normalizers give an event is
  the one of its own title, start time and source.
\<close>

theorem make_event_id_sha256_prefix:
  "make_event_id L ttl start src = take 32 (sha256_hexdigest L (ttl @ ''|'' @ start @ ''|'' @ src))
   \<and> (length (sha256_hexdigest L (ttl @ ''|'' @ start @ ''|'' @ src)) = 64
        \<longrightarrow> length (make_event_id L ttl start src) = 32)
   \<and> (ttl' = ttl \<and> start' = start \<and> src' = src
        \<longrightarrow> make_event_id L ttl' start' src' = make_event_id L ttl start src)
   \<and> (normalize_api_event L now_iso raw = Inr (Some e)
        \<longrightarrow> event_id e = make_event_id L (title e) (start_time e) (source e))
   \<and> (normalize_ical_event L now_iso c = Inr (Some e')
        \<longrightarrow> event_id e' = make_event_id L (title e') (start_time e') (source e'))"
proof -
  have "make_event_id L ttl start src
          = take 32 (sha256_hexdigest L (ttl @ ''|'' @ start @ ''|'' @ src))"
    by (simp add: make_event_id_def)
  moreover have "length (sha256_hexdigest L (ttl @ ''|'' @ start @ ''|'' @ src)) = 64
        \<longrightarrow> length (make_event_id L ttl start src) = 32"
    by (simp add: make_event_id_def)
  ultimately show ?thesis
    using normalize_api_event_id [of L now_iso raw e]
          normalize_ical_event_id [of L now_iso c e']
    by blast
qed

text \<open>On the digest \<^verbatim>\<open>hashlib\<close> gives for the example event.\<close>

theorem make_event_id_sha256_prefix_witness:
  "length (sha256_hexdigest example_libs
             (''Chess Club'' @ ''|'' @ ''2025-03-01T18:00:00+00:00'' @ ''|'' @ ''getinvolved'')) = 64
   \<and> make_event_id example_libs ''Chess Club'' ''2025-03-01T18:00:00+00:00'' ''getinvolved''
       = ''b49d94d558f3c8838f425d181286962c''
   \<and> length (make_event_id example_libs ''Chess Club'' ''2025-03-01T18:00:00+00:00''
                ''getinvolved'') = 32
   \<and> event_id \<lparr>event_id = ''b49d94d558f3c8838f425d181286962c'',
          source = ''getinvolved'', title = ''Chess Club'',
          description = Some ''Weekly blitz night'',
          start_time = ''2025-03-01T18:00:00+00:00'',
          end_time = Some ''2025-03-01T18:00:00+00:00'',
          location = Some ''Zoom Meeting'', campus = ''Online'',
          organization = Some ''Chess Society'',
          category = Some ''Games, Social'',
          source_url = ''https://rutgers.campuslabs.com/engage/event/4711'',
          last_seen = ''2025-02-01T00:00:00+00:00''\<rparr>
       = make_event_id example_libs ''Chess Club'' ''2025-03-01T18:00:00+00:00'' ''getinvolved''"
proof -
  have h: "length (sha256_hexdigest example_libs
             (''Chess Club'' @ ''|'' @ ''2025-03-01T18:00:00+00:00'' @ ''|'' @ ''getinvolved'')) = 64"
    by (simp add: example_libs_def)
  have v: "take 32 (sha256_hexdigest example_libs
             (''Chess Club'' @ ''|'' @ ''2025-03-01T18:00:00+00:00'' @ ''|'' @ ''getinvolved''))
           = ''b49d94d558f3c8838f425d181286962c''"
    by (simp add: example_libs_def)
  from make_event_id_sha256_prefix
         [of example_libs "''Chess Club''" "''2025-03-01T18:00:00+00:00''" "''getinvolved''"
             "''Chess Club''" "''2025-03-01T18:00:00+00:00''" "''getinvolved''"
             "''2025-02-01T00:00:00+00:00''" "JObj example_api_record" _
             example_component _]
       h v example_api_record_normalized
  show ?thesis by simp
qed

subsection \<open>The failure state across a run\<close>

lemma dict_get_dict_set:
  "dict_get (dict_set kvs k v) k' dflt = (if k' = k then v else dict_get kvs k' dflt)"
  by (induction kvs k v rule: dict_set.induct) (auto simp: dict_get_def)

lemma failure_state_SomeE:
  assumes "failure_state w = Some (n, b)"
  obtains kvs s where
    "load_state w = Inr (JObj kvs)"
    "dict_get kvs SOURCE (JObj []) = JObj s"
    "as_int (dict_get s ''consecutive_failures'' (JInt 0)) = Some n"
    "truthy (dict_get s ''kill_switch'' JNull) = b"
  using assms unfolding failure_state_def
  by (auto split: sum.splits json.splits option.splits)

lemma failure_state_Contents:
  assumes "dict_get kvs SOURCE (JObj []) = JObj s"
    and "as_int (dict_get s ''consecutive_failures'' (JInt 0)) = Some n"
  shows "failure_state (w\<lparr>STATE_FILE := Contents (JObj kvs)\<rparr>)
           = Some (n, truthy (dict_get s ''kill_switch'' JNull))"
  using assms by (simp add: failure_state_def load_state_def)


text \<open>
  A recorded success, when the state file is written: the count is 0 and the kill switch
  is off.
\<close>

lemma record_success_ok:
  assumes "dict_get kvs SOURCE (JObj []) = JObj s"
    and "state_write env = Written"
  shows "\<exists>state'. record_success env (JObj kvs) w
                    = (Inr state', w\<lparr>STATE_FILE := Contents state'\<rparr>)
           \<and> failure_state (w\<lparr>STATE_FILE := Contents state'\<rparr>) = Some (0, False)"
proof -
  let ?s' = "dict_set (dict_set (dict_set (dict_set s ''consecutive_failures'' (JInt 0))
               ''kill_switch'' (JBool False)) ''last_success'' (JStr (now env)))
               ''last_attempt'' (JStr (now env))"
  let ?state' = "JObj (dict_set kvs SOURCE (JObj ?s'))"
  have run: "record_success env (JObj kvs) w = (Inr ?state', w\<lparr>STATE_FILE := Contents ?state'\<rparr>)"
    using assms by (simp add: record_success_def Let_def save_state_def)
  have entry: "dict_get (dict_set kvs SOURCE (JObj ?s')) SOURCE (JObj []) = JObj ?s'"
    by (simp add: dict_get_dict_set)
  have count: "as_int (dict_get ?s' ''consecutive_failures'' (JInt 0)) = Some 0"
    by (simp add: dict_get_dict_set as_int_def)
  have switch: "truthy (dict_get ?s' ''kill_switch'' JNull) = False"
    by (simp add: dict_get_dict_set)
  from failure_state_Contents [OF entry count, of w] switch run
  show ?thesis by auto
qed

text \<open>
  When the state file cannot be written the \<^verbatim>\<open>OSError\<close> leaves both functions, and the
  file holds no new state.
\<close>

lemma record_failure_not_written:
  assumes "dict_get kvs SOURCE (JObj []) = JObj s"
    and "as_int (dict_get s ''consecutive_failures'' (JInt 0)) = Some n"
    and "state_write env = OpenFails msg \<or> state_write env = WriteFails msg"
  shows "record_failure env (JObj kvs) w
           = (Inl (PyExc ''OSError'' msg),
              if state_write env = OpenFails msg then w else w\<lparr>STATE_FILE := Malformed\<rparr>)"
  using assms by (auto simp: record_failure_def Let_def save_state_def)

lemma record_success_not_written:
  assumes "dict_get kvs SOURCE (JObj []) = JObj s"
    and "state_write env = OpenFails msg \<or> state_write env = WriteFails msg"
  shows "record_success env (JObj kvs) w
           = (Inl (PyExc ''OSError'' msg),
              if state_write env = OpenFails msg then w else w\<lparr>STATE_FILE := Malformed\<rparr>)"
  using assms by (auto simp: record_success_def Let_def save_state_def)

text \<open>The failure state is read from the state file alone.\<close>

lemma failure_state_trace [simp]:
  "failure_state (w\<lparr>trace := t\<rparr>) = failure_state w"
  by (simp add: failure_state_def load_state_def)

lemma failure_state_store [simp]:
  "failure_state (w\<lparr>store := t\<rparr>) = failure_state w"
  by (simp add: failure_state_def load_state_def)

text \<open>With the kill switch on, a run returns at once and leaves the world as it is.\<close>

lemma run_blocked:
  assumes "failure_state w = Some (n, True)"
  shows "\<exists>msg. run L env w
           = Some (Inr \<lparr>fetched = 0, inserted = 0, updated = 0, fetch_source = ''none'',
                        error = Some msg\<rparr>, w)"
  using assms
  by (elim failure_state_SomeE) (simp add: run_def py_get_def)

text \<open>With the kill switch off, a run goes on to fetch.\<close>

lemma run_healthy:
  assumes "load_state w = Inr (JObj kvs)"
    and "dict_get kvs SOURCE (JObj []) = JObj s"
    and "\<not> truthy (dict_get s ''kill_switch'' JNull)"
  shows "run L env w =
     (case fetch_via_api L env of
        None \<Rightarrow> None
      | Some (Inr events, reqs) \<Rightarrow>
          Some (run_tail env (JObj kvs) events ''api'' (w\<lparr>trace := trace w @ reqs\<rparr>))
      | Some (Inl exc, reqs) \<Rightarrow>
          (case fetch_via_ical L env of
             (Inr events, reqs') \<Rightarrow>
               Some (run_tail env (JObj kvs) events ''ical''
                       (w\<lparr>trace := trace w @ reqs @ reqs'\<rparr>))
           | (Inl ical_exc, reqs') \<Rightarrow>
               (case record_failure env (JObj kvs)
                       (w\<lparr>trace := trace w @ reqs @ reqs'\<rparr>) of
                  (Inl e, w') \<Rightarrow> Some (Inl e, w')
                | (Inr state', w') \<Rightarrow>
                    Some (Inr \<lparr>fetched = 0, inserted = 0, updated = 0,
                               fetch_source = ''none'',
                               error = Some (str_exc ical_exc)\<rparr>, w'))))"
  using assms by (simp add: run_def py_get_def)

lemma fetch_via_ical_requests:
  "snd (fetch_via_ical L env) = [IcalRequest]"
  by (simp add: fetch_via_ical_def split: http_response.splits sum.splits)


text \<open>
  The same run when the state file cannot be written: the \<^verbatim>\<open>OSError\<close> leaves
  \<^const>\<open>run\<close>, and no failure is recorded.
\<close>

lemma run_total_fetch_failure_not_written:
  assumes healthy: "failure_state w = Some (n, False)"
    and api: "fetch_via_api L env = Some (Inl exc, reqs)"
    and ical: "fst (fetch_via_ical L env) = Inl ical_exc"
    and failed: "state_write env = OpenFails msg"
  shows "run L env w
           = Some (Inl (PyExc ''OSError'' msg), w\<lparr>trace := trace w @ reqs @ [IcalRequest]\<rparr>)
         \<and> failure_state (w\<lparr>trace := trace w @ reqs @ [IcalRequest]\<rparr>) = Some (n, False)"
proof -
  from healthy obtain kvs s where
    st: "load_state w = Inr (JObj kvs)" "dict_get kvs SOURCE (JObj []) = JObj s"
      "as_int (dict_get s ''consecutive_failures'' (JInt 0)) = Some n"
      "\<not> truthy (dict_get s ''kill_switch'' JNull)"
    by (auto elim: failure_state_SomeE)
  from ical fetch_via_ical_requests [of L env]
  have ical': "fetch_via_ical L env = (Inl ical_exc, [IcalRequest])"
    by (cases "fetch_via_ical L env") simp
  from failed have "state_write env = OpenFails msg \<or> state_write env = WriteFails msg"
    by simp
  from record_failure_not_written [OF st(2,3) this] failed
  have "\<And>w. record_failure env (JObj kvs) w = (Inl (PyExc ''OSError'' msg), w)"
    by simp
  then show ?thesis
    using healthy by (simp add: run_healthy [OF st(1,2,4)] api ical')
qed

subsection \<open>Total fetch failure and the kill switch\<close>

lemma api_loop_requests:
  assumes "api_loop L env page events reqs = Some y"
  shows "\<exists>ks. snd y = reqs @ ApiRequest (page * PAGE_SIZE) # map ApiRequest ks"
proof (rule api_loop.raw_induct
    [where P = "\<lambda>L env page events reqs y.
                  \<exists>ks. snd y = reqs @ ApiRequest (page * PAGE_SIZE) # map ApiRequest ks",
     OF _ assms])
  fix f :: "libs \<Rightarrow> env \<Rightarrow> nat \<Rightarrow> event list \<Rightarrow> effect list
              \<Rightarrow> ((py_error + event list) \<times> effect list) option"
    and L :: libs and env :: env and page events reqs y
  assume IH: "\<And>L env page events reqs y. f L env page events reqs = Some y \<Longrightarrow>
                \<exists>ks. snd y = reqs @ ApiRequest (page * PAGE_SIZE) # map ApiRequest ks"
    and body: "(case api_server env (page * PAGE_SIZE) of
        ConnectionFailed msg \<Rightarrow>
          Some (Inl (PyExc ''ConnectionError'' msg), reqs @ [ApiRequest (page * PAGE_SIZE)])
      | Response status msg body \<Rightarrow>
          if 400 \<le> status \<and> status < 600
          then Some (Inl (HTTPError status msg), reqs @ [ApiRequest (page * PAGE_SIZE)])
          else
            (case body of
               Inl m \<Rightarrow>
                 Some (Inl (PyExc ''JSONDecodeError'' m), reqs @ [ApiRequest (page * PAGE_SIZE)])
             | Inr data \<Rightarrow>
                 (case api_page L (now env) data events of
                    Inl e \<Rightarrow> Some (Inl e, reqs @ [ApiRequest (page * PAGE_SIZE)])
                  | Inr (events', stop) \<Rightarrow>
                      if stop then Some (Inr events', reqs @ [ApiRequest (page * PAGE_SIZE)])
                      else f L env (page + 1) events'
                             (reqs @ [ApiRequest (page * PAGE_SIZE)])))) = Some y"
  have fin: "\<And>out. y = (out, reqs @ [ApiRequest (page * PAGE_SIZE)]) \<Longrightarrow>
                \<exists>ks. snd y = reqs @ ApiRequest (page * PAGE_SIZE) # map ApiRequest ks"
    by (rule exI [of _ "[]"]) simp
  have more: "\<And>events'. f L env (page + 1) events' (reqs @ [ApiRequest (page * PAGE_SIZE)]) = Some y
                \<Longrightarrow> \<exists>ks. snd y = reqs @ ApiRequest (page * PAGE_SIZE) # map ApiRequest ks"
  proof -
    fix events'
    assume "f L env (page + 1) events' (reqs @ [ApiRequest (page * PAGE_SIZE)]) = Some y"
    from IH [OF this] obtain ks where
      "snd y = (reqs @ [ApiRequest (page * PAGE_SIZE)])
                 @ ApiRequest ((page + 1) * PAGE_SIZE) # map ApiRequest ks"
      by blast
    then have "snd y = reqs @ ApiRequest (page * PAGE_SIZE)
                 # map ApiRequest ((page + 1) * PAGE_SIZE # ks)"
      by simp
    then show "\<exists>ks. snd y = reqs @ ApiRequest (page * PAGE_SIZE) # map ApiRequest ks"
      by blast
  qed
  show "\<exists>ks. snd y = reqs @ ApiRequest (page * PAGE_SIZE) # map ApiRequest ks"
    using body fin more
    by (auto split: http_response.splits if_splits sum.splits prod.splits)
qed

text \<open>The requests of the API fetch: the first asks for \<^verbatim>\<open>skip=0\<close>, and all go to the API.\<close>

lemma fetch_via_api_requests:
  assumes "fetch_via_api L env = Some (out, reqs)"
  shows "\<exists>ks. reqs = ApiRequest 0 # map ApiRequest ks"
  using api_loop_requests [of L env 0 "[]" "[]" "(out, reqs)"] assms
  by (simp add: fetch_via_api_def)



text \<open>On the outside that is down, from a world without a state file.\<close>

lemma example_env_down_api:
  "fetch_via_api example_libs example_env_down
     = Some (Inl (HTTPError 429 ''429 Client Error: Too Many Requests''), [ApiRequest 0])"
  unfolding fetch_via_api_def
  by (subst api_loop.simps) (simp add: example_env_down_def)

lemma example_env_down_ical:
  "fetch_via_ical example_libs example_env_down
     = (Inl (PyExc ''ConnectionError'' ''Connection refused''), [IcalRequest])"
  by (simp add: fetch_via_ical_def example_env_down_def)



text \<open>The run on the outside that is down, from a world without a state file and with an empty store.\<close>

lemma example_run_down:
  "run example_libs example_env_down example_world
     = Some (Inr \<lparr>fetched = 0, inserted = 0, updated = 0, fetch_source = ''none'',
                  error = Some ''Connection refused''\<rparr>,
             \<lparr>STATE_FILE = Contents (JObj [(''getinvolved'',
                  JObj [(''consecutive_failures'', JInt 1), (''kill_switch'', JBool False),
                        (''last_success'', JNull),
                        (''last_attempt'', JStr ''2025-02-01T00:00:00+00:00'')])]),
              store = [], trace = [ApiRequest 0, IcalRequest]\<rparr>)"
proof -
  have clock: "now example_env_down = ''2025-02-01T00:00:00+00:00''"
    and written: "state_write example_env_down = Written"
    by (simp_all add: example_env_down_def)
  show ?thesis
    by (simp add: run_def load_state_def example_world_def default_state_def py_get_def
                  dict_get_def SOURCE_def example_env_down_api example_env_down_ical
                  record_failure_def as_int_def MAX_FAILURES_def save_state_def str_exc_def
                  clock written Let_def)
qed




subsection \<open>What a run does to the store and the trace\<close>

lemma save_state_keeps:
  "store (snd (case save_state env state w of
                 (Some e, w') \<Rightarrow> (Inl e, w')
               | (None, w') \<Rightarrow> (Inr state, w'))) = store w
   \<and> trace (snd (case save_state env state w of
                 (Some e, w') \<Rightarrow> (Inl e, w')
               | (None, w') \<Rightarrow> (Inr state, w'))) = trace w"
  by (simp add: save_state_def split: write_outcome.splits)

lemma record_failure_keeps:
  "store (snd (record_failure env state w)) = store w
   \<and> trace (snd (record_failure env state w)) = trace w"
  by (simp add: record_failure_def Let_def save_state_keeps split: json.splits option.splits)

lemma record_success_keeps:
  "store (snd (record_success env state w)) = store w
   \<and> trace (snd (record_success env state w)) = trace w"
  by (simp add: record_success_def Let_def save_state_keeps split: json.splits option.splits)

lemma get_stored_count_world:
  "snd (get_stored_count env w) = w\<lparr>trace := trace w @ [StoreCount]\<rparr>"
  by (simp add: get_stored_count_def Let_def split: option.splits)

lemma get_stored_count_value:
  assumes "count_error env = None"
  shows "fst (get_stored_count env w) = Inr (length (filter (\<lambda>row. source row = SOURCE) (store w)))"
  using assms by (simp add: get_stored_count_def Let_def)

lemma upsert_events_trace:
  "\<exists>rest. trace (snd (upsert_events env events w)) = trace w @ rest"
  by (simp add: upsert_events_def Let_def split: option.splits sum.splits)

lemma run_tail_trace:
  "\<exists>rest. trace (snd (run_tail env state events src w)) = trace w @ rest"
proof (cases "length events = 0")
  case True
  obtain c w1 where c: "get_stored_count env w = (c, w1)"
    by (cases "get_stored_count env w")
  with get_stored_count_world [of env w] have w1: "trace w1 = trace w @ [StoreCount]"
    by simp
  show ?thesis
    using True c w1 record_failure_keeps [of env state w1]
          record_success_keeps [of env state w1]
    by (auto simp: run_tail_def split: sum.splits prod.splits)
next
  case False
  obtain u w1 where u: "upsert_events env events w = (u, w1)"
    by (cases "upsert_events env events w")
  with upsert_events_trace [of env events w] obtain rest where
    w1: "trace w1 = trace w @ rest"
    by auto
  show ?thesis
    using False u w1 record_failure_keeps [of env state w1]
          record_success_keeps [of env state w1]
    by (auto simp: run_tail_def split: sum.splits prod.splits)
qed

text \<open>A run that finds the kill switch off asks the API first.\<close>

lemma run_healthy_requests:
  assumes "failure_state w = Some (n, False)"
    and "run L env w = Some (out, w')"
  shows "\<exists>rest. trace w' = trace w @ ApiRequest 0 # rest"
proof -
  from assms(1) obtain kvs s where
    st: "load_state w = Inr (JObj kvs)" "dict_get kvs SOURCE (JObj []) = JObj s"
      "\<not> truthy (dict_get s ''kill_switch'' JNull)"
    by (auto elim: failure_state_SomeE)
  from assms(2) obtain res reqs where api: "fetch_via_api L env = Some (res, reqs)"
    by (auto simp: run_healthy [OF st] split: option.splits)
  from fetch_via_api_requests [OF api] obtain ks where
    reqs: "reqs = ApiRequest 0 # map ApiRequest ks"
    by blast
  show ?thesis
  proof (cases res)
    case (Inr events)
    from run_tail_trace [of env "JObj kvs" events "''api''" "w\<lparr>trace := trace w @ reqs\<rparr>"]
    obtain rest where
      "trace (snd (run_tail env (JObj kvs) events ''api'' (w\<lparr>trace := trace w @ reqs\<rparr>)))
         = trace w @ reqs @ rest"
      by auto
    with assms(2) api Inr reqs show ?thesis
      by (auto simp: run_healthy [OF st])
  next
    case (Inl exc)
    obtain ir reqs' where ical: "fetch_via_ical L env = (ir, reqs')"
      by (cases "fetch_via_ical L env")
    let ?w1 = "w\<lparr>trace := trace w @ reqs @ reqs'\<rparr>"
    show ?thesis
    proof (cases ir)
      case (Inr events)
      from run_tail_trace [of env "JObj kvs" events "''ical''" ?w1]
      obtain rest where
        "trace (snd (run_tail env (JObj kvs) events ''ical'' ?w1)) = trace w @ reqs @ reqs' @ rest"
        by auto
      with assms(2) api \<open>res = Inl exc\<close> ical Inr reqs show ?thesis
        by (auto simp: run_healthy [OF st])
    next
      case (Inl ical_exc)
      obtain rr w2 where rf: "record_failure env (JObj kvs) ?w1 = (rr, w2)"
        by (cases "record_failure env (JObj kvs) ?w1")
      with record_failure_keeps [of env "JObj kvs" ?w1]
      have "trace w2 = trace w @ reqs @ reqs'"
        by simp
      with assms(2) api \<open>res = Inl exc\<close> ical Inl reqs rf show ?thesis
        by (auto simp: run_healthy [OF st] split: sum.splits)
    qed
  qed
qed

subsection \<open>Loading the state\<close>

text \<open>
  C10. When the state file is missing, or holds a text that is not JSON, the loaded
  state is the default one: for this source the count is 0 and the kill switch is off.
  So a run that starts from such a file is not blocked, whatever the file held before
  it was deleted or damaged: if it returns, it has sent its first request to the API.
\<close>

theorem load_state_default_when_missing_or_malformed:
  assumes "STATE_FILE w = Missing \<or> STATE_FILE w = Malformed"
  shows "load_state w = Inr default_state
       \<and> py_get default_state SOURCE (JObj [])
           = Inr (JObj [(''consecutive_failures'', JInt 0), (''kill_switch'', JBool False),
                        (''last_success'', JNull), (''last_attempt'', JNull)])
       \<and> failure_state w = Some (0, False)
       \<and> (\<forall>L env out w'. run L env w = Some (out, w')
             \<longrightarrow> (\<exists>rest. trace w' = trace w @ ApiRequest 0 # rest))"
proof -
  from assms have load: "load_state w = Inr default_state"
    by (auto simp: load_state_def)
  have entry: "py_get default_state SOURCE (JObj [])
           = Inr (JObj [(''consecutive_failures'', JInt 0), (''kill_switch'', JBool False),
                        (''last_success'', JNull), (''last_attempt'', JNull)])"
    by (simp add: default_state_def py_get_def dict_get_def)
  from load have fs: "failure_state w = Some (0, False)"
    by (simp add: failure_state_def default_state_def dict_get_def as_int_def)
  from run_healthy_requests [OF fs]
  have "\<forall>L env out w'. run L env w = Some (out, w')
             \<longrightarrow> (\<exists>rest. trace w' = trace w @ ApiRequest 0 # rest)"
    by blast
  with load entry fs show ?thesis by blast
qed

text \<open>
  On the world with the kill switch on: a run there is blocked; once the state file is
  deleted the state is the default one and the same run sends its requests.
\<close>

theorem load_state_default_when_missing_or_malformed_witness:
  "failure_state example_blocked_world = Some (3, True)
   \<and> (\<exists>msg. run example_libs example_env_down example_blocked_world
         = Some (Inr \<lparr>fetched = 0, inserted = 0, updated = 0, fetch_source = ''none'',
                      error = Some msg\<rparr>, example_blocked_world))
   \<and> STATE_FILE (example_blocked_world\<lparr>STATE_FILE := Missing\<rparr>) = Missing
   \<and> load_state (example_blocked_world\<lparr>STATE_FILE := Missing\<rparr>) = Inr default_state
   \<and> failure_state (example_blocked_world\<lparr>STATE_FILE := Missing\<rparr>) = Some (0, False)
   \<and> run example_libs example_env_down (example_blocked_world\<lparr>STATE_FILE := Missing\<rparr>)
       = Some (Inr \<lparr>fetched = 0, inserted = 0, updated = 0, fetch_source = ''none'',
                  error = Some ''Connection refused''\<rparr>,
             \<lparr>STATE_FILE = Contents (JObj [(''getinvolved'',
                  JObj [(''consecutive_failures'', JInt 1), (''kill_switch'', JBool False),
                        (''last_success'', JNull),
                        (''last_attempt'', JStr ''2025-02-01T00:00:00+00:00'')])]),
              store = [], trace = [ApiRequest 0, IcalRequest]\<rparr>)"
proof -
  have blocked: "failure_state example_blocked_world = Some (3, True)"
    by (simp add: failure_state_def load_state_def example_blocked_world_def dict_get_def
                  SOURCE_def as_int_def)
  have deleted: "example_blocked_world\<lparr>STATE_FILE := Missing\<rparr> = example_world"
    by (simp add: example_blocked_world_def example_world_def)
  have missing: "STATE_FILE (example_blocked_world\<lparr>STATE_FILE := Missing\<rparr>) = Missing
                 \<or> STATE_FILE (example_blocked_world\<lparr>STATE_FILE := Missing\<rparr>) = Malformed"
    by simp
  from load_state_default_when_missing_or_malformed [OF missing]
       run_blocked [OF blocked, of example_libs example_env_down]
       blocked example_run_down
  show ?thesis
    by (simp add: deleted) (simp add: example_world_def)
qed

subsection \<open>Reconciliation\<close>

lemma first_occurrences_ids:
  "event_id ` set (first_occurrences es) = event_id ` set es"
  by (induction es rule: first_occurrences.induct) auto

lemma first_occurrences_subset:
  "set (first_occurrences es) \<subseteq> set es"
  by (induction es rule: first_occurrences.induct) auto

lemma first_occurrences_distinct:
  "distinct (map event_id (first_occurrences es))"
proof (induction es rule: first_occurrences.induct)
  case 1
  show ?case by simp
next
  case (2 e es)
  have "event_id e \<notin> event_id ` set (first_occurrences (filter (\<lambda>x. event_id x \<noteq> event_id e) es))"
    by (auto simp: first_occurrences_ids)
  with 2 show ?case by simp
qed

lemma first_occurrences_length:
  "length (first_occurrences es) = card (event_id ` set es)"
proof -
  have "length (first_occurrences es) = length (map event_id (first_occurrences es))"
    by simp
  also have "\<dots> = card (set (map event_id (first_occurrences es)))"
    by (rule distinct_card [symmetric]) (rule first_occurrences_distinct)
  also have "\<dots> = card (event_id ` set es)"
    by (simp add: first_occurrences_ids)
  finally show ?thesis .
qed

lemma first_occurrences_le:
  "length (first_occurrences es) \<le> length es"
proof -
  have "card (event_id ` set es) \<le> card (set es)"
    by (rule card_image_le) simp
  also have "\<dots> \<le> length es"
    by (rule card_length)
  finally show ?thesis
    by (simp add: first_occurrences_length)
qed

text \<open>Each event kept is the first of the input with its identifier.\<close>

lemma first_occurrences_find:
  "e \<in> set (first_occurrences es) \<Longrightarrow> find (\<lambda>x. event_id x = event_id e) es = Some e"
proof (induction es rule: first_occurrences.induct)
  case 1
  then show ?case by simp
next
  case (2 a es)
  show ?case
  proof (cases "e = a")
    case True
    then show ?thesis by simp
  next
    case False
    with 2 have mem: "e \<in> set (first_occurrences (filter (\<lambda>x. event_id x \<noteq> event_id a) es))"
      by simp
    with first_occurrences_subset have "e \<in> set (filter (\<lambda>x. event_id x \<noteq> event_id a) es)"
      by blast
    then have ne: "event_id e \<noteq> event_id a" by simp
    from 2 mem have "find (\<lambda>x. event_id x = event_id e)
                       (filter (\<lambda>x. event_id x \<noteq> event_id a) es) = Some e"
      by simp
    moreover have "find (\<lambda>x. event_id x = event_id e) (filter (\<lambda>x. event_id x \<noteq> event_id a) es)
                     = find (\<lambda>x. event_id x = event_id e) es"
      using ne by (induction es) auto
    ultimately show ?thesis using ne by simp
  qed
qed

text \<open>The loop of the code computes the first occurrences.\<close>

lemma dedupe_loop_first_occurrences:
  "dedupe_loop es seen deduped
     = deduped @ first_occurrences (filter (\<lambda>e. event_id e \<notin> seen) es)"
proof (induction es arbitrary: seen deduped)
  case Nil
  show ?case by simp
next
  case (Cons e es)
  have "filter (\<lambda>x. event_id x \<noteq> event_id e) (filter (\<lambda>x. event_id x \<notin> seen) es)
          = filter (\<lambda>x. event_id x \<notin> insert (event_id e) seen) es"
    by (induction es) auto
  with Cons show ?case by simp
qed

lemma dedupe_loop_start:
  "dedupe_loop es {} [] = first_occurrences es"
  by (simp add: dedupe_loop_first_occurrences)

text \<open>The upsert of a batch without a repeated identifier, on a table with unique identifiers.\<close>

lemma upsert_row_ids:
  "map event_id (upsert_row rows e)
     = (if event_id e \<in> event_id ` set rows then map event_id rows
        else map event_id rows @ [event_id e])"
  by (auto simp: upsert_row_def)

lemma upsert_row_mem:
  "e \<in> set (upsert_row rows e)"
  by (auto simp: upsert_row_def)

lemma upsert_row_keeps:
  "x \<in> set rows \<Longrightarrow> event_id x \<noteq> event_id e \<Longrightarrow> x \<in> set (upsert_row rows e)"
  by (auto simp: upsert_row_def)

lemma foldl_upsert_row_distinct:
  "distinct (map event_id rows) \<Longrightarrow> distinct (map event_id (foldl upsert_row rows batch))"
proof (induction batch arbitrary: rows)
  case Nil
  then show ?case by simp
next
  case (Cons e batch)
  from Cons.prems have "distinct (map event_id (upsert_row rows e))"
    by (auto simp: upsert_row_ids)
  from Cons.IH [OF this] show ?case by simp
qed

lemma foldl_upsert_row_ids:
  "event_id ` set (foldl upsert_row rows batch) = event_id ` set rows \<union> event_id ` set batch"
proof (induction batch arbitrary: rows)
  case Nil
  show ?case by simp
next
  case (Cons e batch)
  have "event_id ` set (upsert_row rows e) = insert (event_id e) (event_id ` set rows)"
    using upsert_row_ids [of rows e, THEN arg_cong, of set] by auto
  with Cons [of "upsert_row rows e"] show ?case by auto
qed

lemma foldl_upsert_row_keeps:
  "x \<in> set rows \<Longrightarrow> event_id x \<notin> event_id ` set batch
     \<Longrightarrow> x \<in> set (foldl upsert_row rows batch)"
proof (induction batch arbitrary: rows)
  case Nil
  then show ?case by simp
next
  case (Cons e batch)
  from Cons.prems have "x \<in> set (upsert_row rows e)"
    by (auto intro: upsert_row_keeps)
  from Cons.IH [OF this] Cons.prems(2) show ?case by simp
qed

lemma foldl_upsert_row_stores:
  "distinct (map event_id batch) \<Longrightarrow> set batch \<subseteq> set (foldl upsert_row rows batch)"
proof (induction batch arbitrary: rows)
  case Nil
  show ?case by simp
next
  case (Cons e batch)
  from Cons.prems have ne: "event_id e \<notin> event_id ` set batch" and d: "distinct (map event_id batch)"
    by auto
  have "e \<in> set (foldl upsert_row (upsert_row rows e) batch)"
    by (rule foldl_upsert_row_keeps [OF upsert_row_mem ne])
  with Cons.IH [OF d, of "upsert_row rows e"] show ?case by simp
qed

text \<open>The two counts: the identifiers that were not stored, and those that were.\<close>

lemma inserted_count:
  assumes "distinct (map event_id es)"
  shows "length (filter (\<lambda>e. event_id e \<notin> S) es) = card (event_id ` set es - S)"
proof -
  have "length (filter (\<lambda>e. event_id e \<notin> S) es)
          = length (filter (\<lambda>i. i \<notin> S) (map event_id es))"
    by (simp add: filter_map comp_def)
  also have "\<dots> = card (set (filter (\<lambda>i. i \<notin> S) (map event_id es)))"
    by (rule distinct_card [symmetric]) (simp add: assms)
  also have "set (filter (\<lambda>i. i \<notin> S) (map event_id es)) = event_id ` set es - S"
    by auto
  finally show ?thesis .
qed

lemma unique_key_one_row:
  "distinct (map f xs) \<Longrightarrow> i \<in> f ` set xs \<Longrightarrow> length (filter (\<lambda>x. f x = i) xs) = 1"
proof (induction xs)
  case Nil
  then show ?case by simp
next
  case (Cons x xs)
  show ?case
  proof (cases "f x = i")
    case True
    with Cons.prems have "filter (\<lambda>y. f y = i) xs = []"
      by (force simp: filter_empty_conv image_iff)
    with True show ?thesis by simp
  next
    case False
    with Cons show ?thesis by auto
  qed
qed

text \<open>\<^const>\<open>upsert_events\<close> on a store that answers.\<close>

lemma upsert_events_ok:
  assumes "events \<noteq> []" and "select_error env = None" and "upsert_error env = None"
  shows "upsert_events env events w
     = (Inr (length (filter (\<lambda>e. event_id e \<notin> event_id ` set (store w))
                       (first_occurrences events)),
             length (first_occurrences events)
               - length (filter (\<lambda>e. event_id e \<notin> event_id ` set (store w))
                           (first_occurrences events))),
        w\<lparr>trace := trace w @ [StoreSelect (map event_id (first_occurrences events)),
                               StoreUpsert (first_occurrences events)],
          store := foldl upsert_row (store w) (first_occurrences events)\<rparr>)"
proof -
  let ?d = "first_occurrences events"
  have existing: "\<And>e. e \<in> set ?d \<Longrightarrow>
      (event_id e \<notin> event_id ` set (filter (\<lambda>row. event_id row \<in> set (map event_id ?d)) (store w)))
        = (event_id e \<notin> event_id ` set (store w))"
  proof -
    fix e
    assume e: "e \<in> set ?d"
    have "event_id ` set (filter (\<lambda>row. event_id row \<in> set (map event_id ?d)) (store w))
            = event_id ` set (store w) \<inter> set (map event_id ?d)"
      by auto
    with e show "(event_id e \<notin> event_id ` set (filter (\<lambda>row. event_id row \<in> set (map event_id ?d)) (store w)))
        = (event_id e \<notin> event_id ` set (store w))"
      by simp
  qed
  have count: "filter (\<lambda>e. event_id e \<notin> event_id `
                   set (filter (\<lambda>row. event_id row \<in> set (map event_id ?d)) (store w))) ?d
               = filter (\<lambda>e. event_id e \<notin> event_id ` set (store w)) ?d"
    by (rule filter_cong [OF refl]) (use existing in blast)
  have up: "table_upsert (store w) ?d = Inr (foldl upsert_row (store w) ?d)"
    by (simp add: table_upsert_def first_occurrences_distinct)
  show ?thesis
    using assms count
    by (simp add: upsert_events_def dedupe_loop_start Let_def up)
qed

text \<open>
  C6. An empty list gives \<open>(0, 0)\<close> and leaves the world as it is, so the store is not
  contacted. For a list that is not empty, on a store that answers and whose rows have
  unique identifiers: the batch sent is the list of first occurrences (one row for each
  identifier, in the order of first occurrence), \<open>inserted + updated\<close> is the number of
  distinct identifiers (at most the length of the input, and less when an identifier
  repeats), \<open>inserted\<close> counts the identifiers that were not stored, and afterwards the
  store holds each event of the batch and exactly one row for each of its identifiers.
\<close>

theorem upsert_events_dedupes:
  assumes "select_error env = None" and "upsert_error env = None"
    and "distinct (map event_id (store w))" and "events \<noteq> []"
  shows "upsert_events env0 [] w0 = (Inr (0, 0), w0)
   \<and> dedupe_loop events {} [] = first_occurrences events
   \<and> distinct (map event_id (first_occurrences events))
   \<and> event_id ` set (first_occurrences events) = event_id ` set events
   \<and> (\<forall>e \<in> set (first_occurrences events).
         find (\<lambda>x. event_id x = event_id e) events = Some e)
   \<and> (\<exists>ins upd w'. upsert_events env events w = (Inr (ins, upd), w')
        \<and> ins + upd = length (first_occurrences events)
        \<and> ins + upd = card (event_id ` set events)
        \<and> ins + upd \<le> length events
        \<and> ins = card (event_id ` set events - event_id ` set (store w))
        \<and> trace w' = trace w @ [StoreSelect (map event_id (first_occurrences events)),
                                   StoreUpsert (first_occurrences events)]
        \<and> set (first_occurrences events) \<subseteq> set (store w')
        \<and> distinct (map event_id (store w'))
        \<and> event_id ` set (store w') = event_id ` set (store w) \<union> event_id ` set events
        \<and> (\<forall>i \<in> event_id ` set events.
              length (filter (\<lambda>row. event_id row = i) (store w')) = 1))"
proof -
  let ?d = "first_occurrences events"
  let ?ins = "length (filter (\<lambda>e. event_id e \<notin> event_id ` set (store w)) ?d)"
  let ?w' = "w\<lparr>trace := trace w @ [StoreSelect (map event_id ?d), StoreUpsert ?d],
               store := foldl upsert_row (store w) ?d\<rparr>"
  have empty: "upsert_events env0 [] w0 = (Inr (0, 0), w0)"
    by (simp add: upsert_events_def)
  have run: "upsert_events env events w = (Inr (?ins, length ?d - ?ins), ?w')"
    by (rule upsert_events_ok [OF assms(4) assms(1) assms(2)])
  have le: "?ins \<le> length ?d"
    by (rule length_filter_le)
  then have total: "?ins + (length ?d - ?ins) = length ?d"
    by simp
  have ins: "?ins = card (event_id ` set events - event_id ` set (store w))"
    using inserted_count [OF first_occurrences_distinct, of "event_id ` set (store w)" events]
    by (simp add: first_occurrences_ids)
  have stored: "set ?d \<subseteq> set (store ?w')"
    using foldl_upsert_row_stores [OF first_occurrences_distinct, of events "store w"]
    by simp
  have dist: "distinct (map event_id (store ?w'))"
    using foldl_upsert_row_distinct [OF assms(3), of ?d] by simp
  have ids: "event_id ` set (store ?w') = event_id ` set (store w) \<union> event_id ` set events"
    by (simp add: foldl_upsert_row_ids first_occurrences_ids)
  have one: "\<forall>i \<in> event_id ` set events.
              length (filter (\<lambda>row. event_id row = i) (store ?w')) = 1"
  proof
    fix i
    assume "i \<in> event_id ` set events"
    with ids have "i \<in> event_id ` set (store ?w')"
      by simp
    with dist show "length (filter (\<lambda>row. event_id row = i) (store ?w')) = 1"
      by (rule unique_key_one_row)
  qed
  have first: "\<forall>e \<in> set ?d. find (\<lambda>x. event_id x = event_id e) events = Some e"
    by (auto intro: first_occurrences_find)
  have tr: "trace ?w' = trace w @ [StoreSelect (map event_id ?d), StoreUpsert ?d]"
    by simp
  from run total ins stored dist ids one tr
  have "\<exists>ins upd w'. upsert_events env events w = (Inr (ins, upd), w')
        \<and> ins + upd = length ?d
        \<and> ins + upd = card (event_id ` set events)
        \<and> ins + upd \<le> length events
        \<and> ins = card (event_id ` set events - event_id ` set (store w))
        \<and> trace w' = trace w @ [StoreSelect (map event_id ?d), StoreUpsert ?d]
        \<and> set ?d \<subseteq> set (store w')
        \<and> distinct (map event_id (store w'))
        \<and> event_id ` set (store w') = event_id ` set (store w) \<union> event_id ` set events
        \<and> (\<forall>i \<in> event_id ` set events.
              length (filter (\<lambda>row. event_id row = i) (store w')) = 1)"
    using first_occurrences_length [of events] first_occurrences_le [of events]
    by (intro exI [of _ ?ins] exI [of _ "length ?d - ?ins"] exI [of _ ?w']) simp
  with empty first show ?thesis
    by (simp add: dedupe_loop_start first_occurrences_distinct first_occurrences_ids)
qed

text \<open>
  On three events of which the third repeats the identifier of the first, with the
  second already stored: one row is inserted, one is updated, and the first occurrence
  is the one that is stored.
\<close>

lemma example_first_occurrences:
  "first_occurrences [example_event, example_event2, example_event_again]
     = [example_event, example_event2]"
  by (simp add: example_event_def example_event2_def example_event_again_def)

theorem upsert_events_dedupes_witness:
  "select_error example_env_down = None \<and> upsert_error example_env_down = None
   \<and> distinct (map event_id (store example_stored_world))
   \<and> [example_event, example_event2, example_event_again] \<noteq> []
   \<and> upsert_events example_env_down [] example_stored_world = (Inr (0, 0), example_stored_world)
   \<and> dedupe_loop [example_event, example_event2, example_event_again] {} []
       = [example_event, example_event2]
   \<and> upsert_events example_env_down [example_event, example_event2, example_event_again]
        example_stored_world
       = (Inr (1, 1),
          \<lparr>STATE_FILE = Missing,
           store = [example_event2, example_event],
           trace = [StoreSelect [''b49d94d558f3c8838f425d181286962c'',
                                 ''d73d0cd03397debfd761322709d83a35''],
                    StoreUpsert [example_event, example_event2]]\<rparr>)"
proof -
  have h1: "select_error example_env_down = None" and h2: "upsert_error example_env_down = None"
    by (simp_all add: example_env_down_def)
  have h3: "distinct (map event_id (store example_stored_world))"
    by (simp add: example_stored_world_def)
  have h4: "[example_event, example_event2, example_event_again] \<noteq> []"
    by simp
  have ids: "event_id example_event = ''b49d94d558f3c8838f425d181286962c''"
    "event_id example_event2 = ''d73d0cd03397debfd761322709d83a35''"
    by (simp_all add: example_event_def example_event2_def)
  have run: "upsert_events example_env_down [example_event, example_event2, example_event_again]
        example_stored_world
       = (Inr (1, 1),
          \<lparr>STATE_FILE = Missing,
           store = [example_event2, example_event],
           trace = [StoreSelect [''b49d94d558f3c8838f425d181286962c'',
                                 ''d73d0cd03397debfd761322709d83a35''],
                    StoreUpsert [example_event, example_event2]]\<rparr>)"
    unfolding upsert_events_ok [OF h4 h1 h2] example_first_occurrences
    by (simp add: example_stored_world_def upsert_row_def ids)
  have empty: "upsert_events example_env_down [] example_stored_world
                 = (Inr (0, 0), example_stored_world)"
    and loop: "dedupe_loop [example_event, example_event2, example_event_again] {} []
                 = first_occurrences [example_event, example_event2, example_event_again]"
    using upsert_events_dedupes [OF h1 h2 h3 h4, of example_env_down example_stored_world]
    by (rule conjunct1, rule conjunct2 [THEN conjunct1])
  show ?thesis
    unfolding loop example_first_occurrences
    using h1 h2 h3 empty run by (intro conjI) simp_all
qed

subsection \<open>After the fetch\<close>


text \<open>
  A tail that succeeds: events reconciled on a store that answers, or no event and fewer
  than 50 rows of this source stored.
\<close>

lemma run_tail_succeeds:
  assumes "dict_get kvs SOURCE (JObj []) = JObj s"
    and "(events \<noteq> [] \<and> select_error env = None \<and> upsert_error env = None)
         \<or> (events = [] \<and> count_error env = None
             \<and> length (filter (\<lambda>row. source row = SOURCE) (store w)) < 50)"
    and "state_write env = Written"
  shows "\<exists>ins upd w'. run_tail env (JObj kvs) events src w
           = (Inr \<lparr>fetched = length events, inserted = ins, updated = upd,
                   fetch_source = src, error = None\<rparr>, w')
         \<and> ins + upd = card (event_id ` set events)
         \<and> failure_state w' = Some (0, False)"
proof (cases "events = []")
  case True
  let ?w1 = "w\<lparr>trace := trace w @ [StoreCount]\<rparr>"
  from True assms(2) have c: "count_error env = None"
    and few: "\<not> 50 \<le> length (filter (\<lambda>row. source row = SOURCE) (store w))"
    by auto
  have cnt: "get_stored_count env w
               = (Inr (length (filter (\<lambda>row. source row = SOURCE) (store w))), ?w1)"
    using c by (simp add: get_stored_count_def Let_def)
  from record_success_ok [OF assms(1,3), where w = ?w1]
  obtain state' where
    rs: "record_success env (JObj kvs) ?w1 = (Inr state', ?w1\<lparr>STATE_FILE := Contents state'\<rparr>)"
    and fs: "failure_state (?w1\<lparr>STATE_FILE := Contents state'\<rparr>) = Some (0, False)"
    by auto
  have "run_tail env (JObj kvs) events src w
           = (Inr \<lparr>fetched = length events, inserted = 0, updated = 0,
                   fetch_source = src, error = None\<rparr>, ?w1\<lparr>STATE_FILE := Contents state'\<rparr>)"
    using True few by (simp add: run_tail_def cnt rs)
  with fs True show ?thesis by auto
next
  case False
  with assms(2) have ok: "select_error env = None" "upsert_error env = None"
    by auto
  let ?d = "first_occurrences events"
  let ?ins = "length (filter (\<lambda>e. event_id e \<notin> event_id ` set (store w)) ?d)"
  let ?w1 = "w\<lparr>trace := trace w @ [StoreSelect (map event_id ?d), StoreUpsert ?d],
               store := foldl upsert_row (store w) ?d\<rparr>"
  have up: "upsert_events env events w = (Inr (?ins, length ?d - ?ins), ?w1)"
    by (rule upsert_events_ok [OF False ok])
  from record_success_ok [OF assms(1,3), where w = ?w1]
  obtain state' where
    rs: "record_success env (JObj kvs) ?w1 = (Inr state', ?w1\<lparr>STATE_FILE := Contents state'\<rparr>)"
    and fs: "failure_state (?w1\<lparr>STATE_FILE := Contents state'\<rparr>) = Some (0, False)"
    by auto
  have run: "run_tail env (JObj kvs) events src w
           = (Inr \<lparr>fetched = length events, inserted = ?ins, updated = length ?d - ?ins,
                   fetch_source = src, error = None\<rparr>, ?w1\<lparr>STATE_FILE := Contents state'\<rparr>)"
    using False by (simp add: run_tail_def up rs)
  have "?ins \<le> length ?d"
    by (rule length_filter_le)
  then have "?ins + (length ?d - ?ins) = card (event_id ` set events)"
    by (simp add: first_occurrences_length)
  with run fs show ?thesis by blast
qed





subsection \<open>The source a run reports\<close>

text \<open>The calendar feed of the example, normalized.\<close>

lemma example_component3_normalized:
  "normalize_ical_event example_libs ''2025-02-01T00:00:00+00:00''
     (example_component\<lparr>SUMMARY := Some ''Study Night''\<rparr>) = Inr (Some example_event3)"
proof -
  let ?c = "example_component\<lparr>SUMMARY := Some ''Study Night''\<rparr>"
  have ttl: "strip (str_or_empty (Some ''Study Night'')) = ''Study Night''"
    by (simp add: str_or_empty_def strip_def is_space_def)
  have start: "to_utc_iso example_libs (ical_dt_value (DTSTART example_component))
                 = Inr (Some ''2025-03-01T18:00:00+00:00'')"
    by (simp add: example_component_def to_utc_iso_def ical_dt_value_def
                  example_libs_def utc_iso_of_def example_datetime_def)
  have end': "to_utc_iso example_libs (ical_dt_value (DTEND example_component))
                 = Inr (Some ''2025-03-01T18:00:00+00:00'')"
    by (simp add: example_component_def to_utc_iso_def ical_dt_value_def
                  example_libs_def utc_iso_of_def example_datetime_def)
  have loc: "strip (str_or_empty (LOCATION example_component)) = ''Zoom Meeting''"
    by (simp add: example_component_def str_or_empty_def strip_def is_space_def)
  have descr: "strip (str_or_empty (DESCRIPTION example_component)) = []"
    by (simp add: example_component_def str_or_empty_def strip_def)
  have url: "strip (str_or_empty (URL example_component)) = []"
    by (simp add: example_component_def str_or_empty_def strip_def)
  have campus: "infer_campus (Some ''Zoom Meeting'') = ''Online''"
    by (simp add: infer_campus_def lower_def char_lower_def startswith_def TBD_PATTERNS_def
                  ONLINE_KEYWORDS_def)
  have eid: "make_event_id example_libs ''Study Night'' ''2025-03-01T18:00:00+00:00'' ''getinvolved''
               = ''447666d14f17ff9f6f189ef685b1f674''"
    by (simp add: make_event_id_def example_libs_def)
  show ?thesis
    using normalize_ical_event_SomeI [of ?c example_libs
            "''2025-03-01T18:00:00+00:00''" "Some ''2025-03-01T18:00:00+00:00''"
            "''2025-02-01T00:00:00+00:00''"] start end'
    by (simp add: ttl loc descr url or_None_def strip_html_def campus eid SOURCE_def ICAL_URL_def
                  example_event3_def example_event2_def)
qed

lemma example_component2_normalized:
  "normalize_ical_event example_libs ''2025-02-01T00:00:00+00:00'' example_component
     = Inr (Some example_event2)"
  by (simp add: example_component_normalized example_event2_def)

lemma example_env_fallback_api:
  "fetch_via_api example_libs example_env_fallback
     = Some (Inl (HTTPError 429 ''429 Client Error: Too Many Requests''), [ApiRequest 0])"
  unfolding fetch_via_api_def
  by (subst api_loop.simps) (simp add: example_env_fallback_def)

lemma example_env_fallback_ical:
  "fetch_via_ical example_libs example_env_fallback
     = (Inr [example_event2, example_event3], [IcalRequest])"
proof -
  have names: "c_name example_component = ''VEVENT''"
    by (simp add: example_component_def)
  show ?thesis
    by (simp add: fetch_via_ical_def example_env_fallback_def names
                  example_component2_normalized example_component3_normalized)
qed
text \<open>A run through the calendar feed, on an empty store.\<close>

lemma example_run_fallback:
  "run example_libs example_env_fallback example_world
     = Some (Inr \<lparr>fetched = 2, inserted = 2, updated = 0, fetch_source = ''ical'',
                  error = None\<rparr>,
             \<lparr>STATE_FILE = Contents (JObj [(''getinvolved'',
                  JObj [(''consecutive_failures'', JInt 0), (''kill_switch'', JBool False),
                        (''last_success'', JStr ''2025-02-01T00:00:00+00:00''),
                        (''last_attempt'', JStr ''2025-02-01T00:00:00+00:00'')])]),
              store = [example_event2, example_event3],
              trace = [ApiRequest 0, IcalRequest,
                       StoreSelect [''d73d0cd03397debfd761322709d83a35'',
                                    ''447666d14f17ff9f6f189ef685b1f674''],
                       StoreUpsert [example_event2, example_event3]]\<rparr>)"
proof -
  have clock: "now example_env_fallback = ''2025-02-01T00:00:00+00:00''"
    and written: "state_write example_env_fallback = Written"
    and sel: "select_error example_env_fallback = None"
    and ups: "upsert_error example_env_fallback = None"
    by (simp_all add: example_env_fallback_def)
  have ids: "event_id example_event2 = ''d73d0cd03397debfd761322709d83a35''"
    "event_id example_event3 = ''447666d14f17ff9f6f189ef685b1f674''"
    by (simp_all add: example_event2_def example_event3_def)
  have up: "upsert_events example_env_fallback [example_event2, example_event3]
              \<lparr>STATE_FILE = Missing, store = [], trace = [ApiRequest 0, IcalRequest]\<rparr>
            = (Inr (2, 0),
               \<lparr>STATE_FILE = Missing, store = [example_event2, example_event3],
                trace = [ApiRequest 0, IcalRequest,
                         StoreSelect [''d73d0cd03397debfd761322709d83a35'',
                                      ''447666d14f17ff9f6f189ef685b1f674''],
                         StoreUpsert [example_event2, example_event3]]\<rparr>)"
    by (simp add: upsert_events_def Let_def sel ups ids table_upsert_def upsert_row_def)
  show ?thesis
    by (simp add: run_def load_state_def example_world_def default_state_def py_get_def
                  dict_get_def SOURCE_def example_env_fallback_api example_env_fallback_ical
                  run_tail_def up record_success_def save_state_def clock written Let_def)
qed

text \<open>What the branches of \<^const>\<open>run_tail\<close> that report no error have done.\<close>

lemma record_success_InrE:
  assumes "record_success env state w = (Inr state', w')"
  shows "failure_state w' = Some (0, False)"
proof -
  from assms obtain kvs where kvs: "state = JObj kvs"
    by (cases state) (simp_all add: record_success_def)
  from assms obtain s where s: "dict_get kvs SOURCE (JObj []) = JObj s"
    unfolding kvs by (cases "dict_get kvs SOURCE (JObj [])") (simp_all add: record_success_def)
  have written: "state_write env = Written"
    using assms unfolding kvs
    by (cases "state_write env") (simp_all add: record_success_def s Let_def save_state_def)
  from record_success_ok [OF s written, of w] assms show ?thesis
    unfolding kvs by auto
qed

lemma upsert_events_InrE:
  assumes "upsert_events env events w = (Inr (ins, upd), w')"
  shows "ins + upd = card (event_id ` set events)"
proof (cases "events = []")
  case True
  with assms show ?thesis
    by (simp add: upsert_events_def)
next
  case False
  have sel: "select_error env = None"
    using assms False
    by (cases "select_error env") (simp_all add: upsert_events_def Let_def)
  have ups: "upsert_error env = None"
    using assms False sel
    by (cases "upsert_error env") (simp_all add: upsert_events_def Let_def)
  let ?d = "first_occurrences events"
  let ?ins = "length (filter (\<lambda>e. event_id e \<notin> event_id ` set (store w)) ?d)"
  from upsert_events_ok [OF False sel ups, of w] assms
  have "ins = ?ins" and "upd = length ?d - ?ins"
    by simp_all
  moreover have "?ins \<le> length ?d"
    by (rule length_filter_le)
  ultimately show ?thesis
    by (simp add: first_occurrences_length)
qed

lemma run_tail_no_error:
  assumes "run_tail env state events src w = (Inr r, w')"
    and "error r = None"
  shows "fetch_source r = src \<and> fetched r = length events
         \<and> inserted r + updated r = card (event_id ` set events)
         \<and> failure_state w' = Some (0, False)"
proof (cases "events = []")
  case True
  obtain c w1 where cnt: "get_stored_count env w = (c, w1)"
    by (cases "get_stored_count env w")
  show ?thesis
  proof (cases c)
    case (Inl e)
    with assms True cnt show ?thesis
      by (simp add: run_tail_def)
  next
    case (Inr stored)
    show ?thesis
    proof (cases "50 \<le> stored")
      case True
      obtain x w2 where rf: "record_failure env state w1 = (x, w2)"
        by (cases "record_failure env state w1")
      with assms \<open>events = []\<close> cnt Inr True show ?thesis
        by (cases x) (auto simp: run_tail_def)
    next
      case False
      obtain x w2 where rs: "record_success env state w1 = (x, w2)"
        by (cases "record_success env state w1")
      show ?thesis
      proof (cases x)
        case (Inl e)
        with assms \<open>events = []\<close> cnt \<open>c = Inr stored\<close> False rs show ?thesis
          by (simp add: run_tail_def)
      next
        case (Inr state')
        with rs have "failure_state w2 = Some (0, False)"
          by (simp add: record_success_InrE)
        with assms \<open>events = []\<close> cnt \<open>c = Inr stored\<close> False rs Inr show ?thesis
          by (auto simp: run_tail_def)
      qed
    qed
  qed
next
  case False
  obtain u w1 where up: "upsert_events env events w = (u, w1)"
    by (cases "upsert_events env events w")
  show ?thesis
  proof (cases u)
    case (Inl exc)
    obtain x w2 where rf: "record_failure env state w1 = (x, w2)"
      by (cases "record_failure env state w1")
    with assms False up Inl show ?thesis
      by (cases x) (auto simp: run_tail_def)
  next
    case (Inr p)
    obtain ins upd where p: "p = (ins, upd)"
      by (cases p)
    from up Inr p have sum: "ins + upd = card (event_id ` set events)"
      by (simp add: upsert_events_InrE)
    obtain x w2 where rs: "record_success env state w1 = (x, w2)"
      by (cases "record_success env state w1")
    show ?thesis
    proof (cases x)
      case (Inl e)
      with assms False up \<open>u = Inr p\<close> p rs show ?thesis
        by (simp add: run_tail_def)
    next
      case (Inr state')
      with rs have "failure_state w2 = Some (0, False)"
        by (simp add: record_success_InrE)
      with assms False up \<open>u = Inr p\<close> p rs Inr sum show ?thesis
        by (auto simp: run_tail_def)
    qed
  qed
qed
text \<open>
  C4 as stated fails on the name of the source: after the API raised (HTTP 429) and the
  calendar feed gave two events, the run succeeds and reports the source \<open>ical\<close>, where
  the claim says \<open>feed\<close>.
\<close>

theorem fallback_run_reports_ical_counterexample:
  "fetch_via_api example_libs example_env_fallback
     = Some (Inl (HTTPError 429 ''429 Client Error: Too Many Requests''), [ApiRequest 0])
   \<and> fetch_via_ical example_libs example_env_fallback
     = (Inr [example_event2, example_event3], [IcalRequest])
   \<and> run example_libs example_env_fallback example_world
     = Some (Inr \<lparr>fetched = 2, inserted = 2, updated = 0, fetch_source = ''ical'',
                  error = None\<rparr>,
             \<lparr>STATE_FILE = Contents (JObj [(''getinvolved'',
                  JObj [(''consecutive_failures'', JInt 0), (''kill_switch'', JBool False),
                        (''last_success'', JStr ''2025-02-01T00:00:00+00:00''),
                        (''last_attempt'', JStr ''2025-02-01T00:00:00+00:00'')])]),
              store = [example_event2, example_event3],
              trace = [ApiRequest 0, IcalRequest,
                       StoreSelect [''d73d0cd03397debfd761322709d83a35'',
                                    ''447666d14f17ff9f6f189ef685b1f674''],
                       StoreUpsert [example_event2, example_event3]]\<rparr>)
   \<and> fetch_source \<lparr>fetched = 2, inserted = 2, updated = 0, fetch_source = ''ical'',
                    error = None\<rparr> \<noteq> ''feed''"
  using example_env_fallback_api example_env_fallback_ical example_run_fallback
  by simp

text \<open>
  C4, amended. Every run that completes successfully (it returns a result with no error)
  either fetched its events from the API and reports the source \<open>api\<close>, or had the API
  fetch raise, fetched its events from the calendar feed and reports the source \<open>ical\<close>.
  In both cases \<open>fetched\<close> is the number of events that fetch returned, \<open>inserted\<close> and
  \<open>updated\<close> add up to the number of distinct event ids among them, and the failure state
  after the run is \<open>Healthy(0)\<close>: the count is 0 and the kill switch is off.
\<close>

theorem successful_run_reports_fetch_source:
  assumes "run L env w = Some (Inr r, w')"
    and "error r = None"
  shows "\<exists>events reqs.
           (fetch_via_api L env = Some (Inr events, reqs) \<and> fetch_source r = ''api''
            \<or> (\<exists>exc. fetch_via_api L env = Some (Inl exc, reqs))
               \<and> fst (fetch_via_ical L env) = Inr events \<and> fetch_source r = ''ical'')
         \<and> fetched r = length events
         \<and> inserted r + updated r = card (event_id ` set events)
         \<and> failure_state w' = Some (0, False)"
proof -
  from assms(1) obtain state where st: "load_state w = Inr state"
    by (cases "load_state w") (simp_all add: run_def)
  from assms(1) obtain source_state where
    ss: "py_get state SOURCE (JObj []) = Inr source_state"
    by (cases "py_get state SOURCE (JObj [])") (simp_all add: run_def st)
  from assms(1) obtain kill_switch where
    ks: "py_get source_state ''kill_switch'' JNull = Inr kill_switch"
    by (cases "py_get source_state ''kill_switch'' JNull") (simp_all add: run_def st ss)
  have off: "\<not> truthy kill_switch"
  proof
    assume "truthy kill_switch"
    with assms show False
      by (cases "py_get source_state ''consecutive_failures'' (JInt 0)")
         (auto simp: run_def st ss ks)
  qed
  from assms(1) off obtain a reqs where api: "fetch_via_api L env = Some (a, reqs)"
    by (cases "fetch_via_api L env") (auto simp: run_def st ss ks)
  show ?thesis
  proof (cases a)
    case (Inr events)
    with assms(1) off api have
      "run_tail env state events ''api'' (w\<lparr>trace := trace w @ reqs\<rparr>) = (Inr r, w')"
      by (simp add: run_def st ss ks)
    from run_tail_no_error [OF this assms(2)] api Inr show ?thesis
      by blast
  next
    case (Inl exc)
    obtain b reqs' where ical: "fetch_via_ical L env = (b, reqs')"
      by (cases "fetch_via_ical L env")
    show ?thesis
    proof (cases b)
      case (Inr events)
      with assms(1) off api Inl ical have
        "run_tail env state events ''ical'' (w\<lparr>trace := trace w @ reqs @ reqs'\<rparr>)
           = (Inr r, w')"
        by (simp add: run_def st ss ks)
      from run_tail_no_error [OF this assms(2)]
      have "fetch_source r = ''ical''" "fetched r = length events"
        "inserted r + updated r = card (event_id ` set events)"
        "failure_state w' = Some (0, False)"
        by simp_all
      moreover have "fst (fetch_via_ical L env) = Inr events"
        using ical Inr by simp
      moreover have "\<exists>exc. fetch_via_api L env = Some (Inl exc, reqs)"
        using api Inl by simp
      ultimately show ?thesis
        by blast
    next
      case (Inl ical_exc)
      obtain x w2 where rf:
        "record_failure env state (w\<lparr>trace := trace w @ reqs @ reqs'\<rparr>) = (x, w2)"
        by (cases "record_failure env state (w\<lparr>trace := trace w @ reqs @ reqs'\<rparr>)")
      with assms off api \<open>a = Inl exc\<close> ical Inl show ?thesis
        by (cases x) (auto simp: run_def st ss ks)
    qed
  qed
qed

theorem successful_run_reports_fetch_source_witness:
  "run example_libs example_env_fallback example_world
     = Some (Inr \<lparr>fetched = 2, inserted = 2, updated = 0, fetch_source = ''ical'',
                  error = None\<rparr>,
             \<lparr>STATE_FILE = Contents (JObj [(''getinvolved'',
                  JObj [(''consecutive_failures'', JInt 0), (''kill_switch'', JBool False),
                        (''last_success'', JStr ''2025-02-01T00:00:00+00:00''),
                        (''last_attempt'', JStr ''2025-02-01T00:00:00+00:00'')])]),
              store = [example_event2, example_event3],
              trace = [ApiRequest 0, IcalRequest,
                       StoreSelect [''d73d0cd03397debfd761322709d83a35'',
                                    ''447666d14f17ff9f6f189ef685b1f674''],
                       StoreUpsert [example_event2, example_event3]]\<rparr>)
   \<and> (\<exists>events reqs.
         (fetch_via_api example_libs example_env_fallback = Some (Inr events, reqs)
            \<and> ''ical'' = ''api''
          \<or> (\<exists>exc. fetch_via_api example_libs example_env_fallback = Some (Inl exc, reqs))
             \<and> fst (fetch_via_ical example_libs example_env_fallback) = Inr events)
         \<and> 2 = length events
         \<and> 2 + 0 = card (event_id ` set events))
   \<and> failure_state
        \<lparr>STATE_FILE = Contents (JObj [(''getinvolved'',
                  JObj [(''consecutive_failures'', JInt 0), (''kill_switch'', JBool False),
                        (''last_success'', JStr ''2025-02-01T00:00:00+00:00''),
                        (''last_attempt'', JStr ''2025-02-01T00:00:00+00:00'')])]),
              store = [example_event2, example_event3],
              trace = [ApiRequest 0, IcalRequest,
                       StoreSelect [''d73d0cd03397debfd761322709d83a35'',
                                    ''447666d14f17ff9f6f189ef685b1f674''],
                       StoreUpsert [example_event2, example_event3]]\<rparr> = Some (0, False)"
proof -
  from successful_run_reports_fetch_source [OF example_run_fallback]
  obtain events reqs where
    "fetch_via_api example_libs example_env_fallback = Some (Inr events, reqs)
        \<and> ''ical'' = ''api''
     \<or> (\<exists>exc. fetch_via_api example_libs example_env_fallback = Some (Inl exc, reqs))
        \<and> fst (fetch_via_ical example_libs example_env_fallback) = Inr events"
    "2 = length events"
    "2 + 0 = card (event_id ` set events)"
    "failure_state
        \<lparr>STATE_FILE = Contents (JObj [(''getinvolved'',
                  JObj [(''consecutive_failures'', JInt 0), (''kill_switch'', JBool False),
                        (''last_success'', JStr ''2025-02-01T00:00:00+00:00''),
                        (''last_attempt'', JStr ''2025-02-01T00:00:00+00:00'')])]),
              store = [example_event2, example_event3],
              trace = [ApiRequest 0, IcalRequest,
                       StoreSelect [''d73d0cd03397debfd761322709d83a35'',
                                    ''447666d14f17ff9f6f189ef685b1f674''],
                       StoreUpsert [example_event2, example_event3]]\<rparr> = Some (0, False)"
    by auto
  with example_run_fallback show ?thesis
    by blast
qed

subsection \<open>The sanitizer\<close>

lemma is_space_simps [simp]:
  "is_space CHR '' ''" "\<not> is_space CHR ''<''" "\<not> is_space CHR ''>''"
  by (simp_all add: is_space_def)

text \<open>Where the pattern matches.\<close>

lemma takeWhile_not_gt:
  "(takeWhile (\<lambda>x. x \<noteq> CHR ''>'') cs \<noteq> []) = (cs \<noteq> [] \<and> hd cs \<noteq> CHR ''>'')"
  by (cases cs) simp_all

lemma dropWhile_not_gt:
  "(dropWhile (\<lambda>x. x \<noteq> CHR ''>'') cs \<noteq> []) = (CHR ''>'' \<in> set cs)"
  by (induction cs) auto

lemma set_tl_dropWhile:
  "set (tl (dropWhile P cs)) \<subseteq> set cs"
proof
  fix x
  assume x: "x \<in> set (tl (dropWhile P cs))"
  have "dropWhile P cs \<noteq> []"
  proof
    assume "dropWhile P cs = []"
    with x show False
      by (simp only: list.sel(2) list.set(1) empty_iff)
  qed
  with x have "x \<in> set (dropWhile P cs)"
    by (simp add: list.set_sel(2))
  then show "x \<in> set cs"
    by (rule set_dropWhileD)
qed

text \<open>The scan replaces the leftmost tag by one space and goes on behind it.\<close>

lemma html_tag_sub_no_lt:
  "CHR ''<'' \<notin> set a \<Longrightarrow> html_tag_sub (a @ s) = a @ html_tag_sub s"
  by (induction a) auto

lemma html_tag_sub_tag:
  assumes "body \<noteq> []" and "CHR ''>'' \<notin> set body"
  shows "html_tag_sub (''<'' @ body @ ''>'' @ b) = CHR '' '' # html_tag_sub b"
proof -
  have "takeWhile (\<lambda>x. x \<noteq> CHR ''>'') (body @ CHR ''>'' # b) = body"
    using assms(2) by (induction body) auto
  moreover have "dropWhile (\<lambda>x. x \<noteq> CHR ''>'') (body @ CHR ''>'' # b) = CHR ''>'' # b"
    using assms(2) by (induction body) auto
  ultimately show ?thesis
    using assms(1) by simp
qed

lemma html_tag_sub_leftmost:
  assumes "CHR ''<'' \<notin> set a" and "body \<noteq> []" and "CHR ''>'' \<notin> set body"
  shows "html_tag_sub (a @ ''<'' @ body @ ''>'' @ b) = html_tag_sub (a @ '' '' @ b)"
proof -
  have "html_tag_sub (a @ ''<'' @ body @ ''>'' @ b) = a @ CHR '' '' # html_tag_sub b"
    using html_tag_sub_no_lt [OF assms(1)] html_tag_sub_tag [OF assms(2,3)] by simp
  moreover have "html_tag_sub (a @ '' '' @ b) = a @ CHR '' '' # html_tag_sub b"
    using html_tag_sub_no_lt [OF assms(1)] by simp
  ultimately show ?thesis
    by simp
qed

text \<open>No tag is left behind the scan.\<close>

lemma set_html_tag_sub:
  "set (html_tag_sub s) \<subseteq> insert CHR '' '' (set s)"
proof (induction s rule: html_tag_sub.induct)
  case 1
  show ?case by simp
next
  case (2 c cs)
  show ?case
  proof (cases "c = CHR ''<'' \<and> takeWhile (\<lambda>x. x \<noteq> CHR ''>'') cs \<noteq> []
                  \<and> dropWhile (\<lambda>x. x \<noteq> CHR ''>'') cs \<noteq> []")
    case True
    with 2 set_tl_dropWhile [of "\<lambda>x. x \<noteq> CHR ''>''" cs] show ?thesis
      by auto
  next
    case False
    with 2 show ?thesis
      by auto
  qed
qed

lemma hd_html_tag_sub_gt:
  "cs \<noteq> [] \<Longrightarrow> hd cs = CHR ''>'' \<Longrightarrow> html_tag_sub cs \<noteq> [] \<and> hd (html_tag_sub cs) = CHR ''>''"
  by (cases cs) auto

lemma html_tag_sub_nonempty:
  "html_tag_sub s = [] \<longleftrightarrow> s = []"
  by (cases s) auto

lemma has_tag_html_tag_sub:
  "\<not> has_tag (html_tag_sub s)"
proof (induction s rule: html_tag_sub.induct)
  case 1
  show ?case by simp
next
  case (2 c cs)
  show ?case
  proof (cases "c = CHR ''<'' \<and> takeWhile (\<lambda>x. x \<noteq> CHR ''>'') cs \<noteq> []
                  \<and> dropWhile (\<lambda>x. x \<noteq> CHR ''>'') cs \<noteq> []")
    case True
    with 2 show ?thesis
      by simp
  next
    case False
    with 2 have ih: "\<not> has_tag (html_tag_sub cs)"
      by simp
    from False have eq: "html_tag_sub (c # cs) = c # html_tag_sub cs"
      by (simp only: html_tag_sub.simps if_False)
    have nomatch: "\<not> (c = CHR ''<'' \<and> takeWhile (\<lambda>x. x \<noteq> CHR ''>'') (html_tag_sub cs) \<noteq> []
             \<and> dropWhile (\<lambda>x. x \<noteq> CHR ''>'') (html_tag_sub cs) \<noteq> [])"
    proof
      assume m: "c = CHR ''<'' \<and> takeWhile (\<lambda>x. x \<noteq> CHR ''>'') (html_tag_sub cs) \<noteq> []
             \<and> dropWhile (\<lambda>x. x \<noteq> CHR ''>'') (html_tag_sub cs) \<noteq> []"
      then have gt: "CHR ''>'' \<in> set (html_tag_sub cs)"
        by (simp add: dropWhile_not_gt)
      with set_html_tag_sub [of cs] have gt': "CHR ''>'' \<in> set cs"
        by auto
      then have "cs \<noteq> []"
        by auto
      from m have "hd (html_tag_sub cs) \<noteq> CHR ''>''"
        by (simp add: takeWhile_not_gt)
      with hd_html_tag_sub_gt [of cs] \<open>cs \<noteq> []\<close> have "hd cs \<noteq> CHR ''>''"
        by auto
      with False m gt' \<open>cs \<noteq> []\<close> show False
        by (simp add: takeWhile_not_gt dropWhile_not_gt)
    qed
    with ih show ?thesis
      by (simp only: eq has_tag.simps) blast
  qed
qed

lemma html_tag_sub_no_tag:
  "\<not> has_tag s \<Longrightarrow> html_tag_sub s = s"
  by (induction s) auto

lemma html_tag_remove_no_tag:
  "\<not> has_tag s \<Longrightarrow> html_tag_remove s = s"
  by (induction s) auto

text \<open>Whitespace does not make or break a tag.\<close>

lemma has_tag_dropWhile_space:
  "has_tag (dropWhile is_space s) = has_tag s"
proof (induction s)
  case Nil
  show ?case by simp
next
  case (Cons c cs)
  show ?case
  proof (cases "is_space c")
    case True
    then have "c \<noteq> CHR ''<''"
      by auto
    with True Cons show ?thesis
      by simp
  next
    case False
    then show ?thesis
      by simp
  qed
qed

lemma gt_dropWhile_space:
  "(CHR ''>'' \<in> set (dropWhile is_space s)) = (CHR ''>'' \<in> set s)"
  by (induction s) auto

lemma gt_whitespace_sub:
  "(CHR ''>'' \<in> set (whitespace_sub s)) = (CHR ''>'' \<in> set s)"
proof (induction s rule: whitespace_sub.induct)
  case 1
  show ?case by simp
next
  case (2 c cs)
  show ?case
  proof (cases "is_space c")
    case True
    then have "c \<noteq> CHR ''>''"
      by auto
    with True 2 show ?thesis
      by (simp add: gt_dropWhile_space)
  next
    case False
    with 2 show ?thesis
      by simp
  qed
qed

lemma whitespace_sub_nonempty:
  "whitespace_sub s = [] \<longleftrightarrow> s = []"
  by (cases s) auto

lemma hd_whitespace_sub_gt:
  "s \<noteq> [] \<Longrightarrow> (hd (whitespace_sub s) = CHR ''>'') = (hd s = CHR ''>'')"
  by (cases s) auto

lemma has_tag_whitespace_sub:
  "has_tag (whitespace_sub s) = has_tag s"
proof (induction s rule: whitespace_sub.induct)
  case 1
  show ?case by simp
next
  case (2 c cs)
  show ?case
  proof (cases "is_space c")
    case True
    then have "c \<noteq> CHR ''<''"
      by auto
    with True 2 show ?thesis
      by (simp add: has_tag_dropWhile_space)
  next
    case False
    with 2 have ih: "has_tag (whitespace_sub cs) = has_tag cs"
      by simp
    from False ih show ?thesis
      by (cases "cs = []")
         (simp_all add: takeWhile_not_gt dropWhile_not_gt gt_whitespace_sub
                        whitespace_sub_nonempty hd_whitespace_sub_gt)
  qed
qed

lemma has_tag_append:
  "has_tag a \<Longrightarrow> has_tag (a @ b)"
  by (induction a) (auto simp: takeWhile_not_gt dropWhile_not_gt)

lemma strip_prefix:
  "dropWhile is_space s = strip s @ rev (takeWhile is_space (rev (dropWhile is_space s)))"
proof -
  have "rev (takeWhile is_space (rev (dropWhile is_space s))
             @ dropWhile is_space (rev (dropWhile is_space s)))
          = rev (rev (dropWhile is_space s))"
    by (simp only: takeWhile_dropWhile_id)
  then have "rev (dropWhile is_space (rev (dropWhile is_space s)))
               @ rev (takeWhile is_space (rev (dropWhile is_space s)))
          = dropWhile is_space s"
    by (simp only: rev_append rev_rev_ident)
  then show ?thesis
    by (simp only: strip_def)
qed

lemma has_tag_strip:
  assumes "\<not> has_tag s"
  shows "\<not> has_tag (strip s)"
proof
  assume "has_tag (strip s)"
  then have "has_tag (strip s @ rev (takeWhile is_space (rev (dropWhile is_space s))))"
    by (rule has_tag_append)
  then have "has_tag (dropWhile is_space s)"
    using strip_prefix [of s] by simp
  with assms show False
    by (simp add: has_tag_dropWhile_space)
qed

text \<open>Every run of whitespace becomes one space.\<close>

lemma whitespace_sub_spaces:
  "c \<in> set (whitespace_sub s) \<Longrightarrow> is_space c \<Longrightarrow> c = CHR '' ''"
proof (induction s rule: whitespace_sub.induct)
  case 1
  then show ?case by simp
next
  case (2 d ds)
  then show ?case
    by (cases "is_space d") auto
qed

lemma hd_whitespace_sub:
  "s \<noteq> [] \<Longrightarrow> \<not> is_space (hd s) \<Longrightarrow> hd (whitespace_sub s) = hd s"
  by (cases s) auto

lemma adjacent_spaces_Cons:
  "adjacent_spaces (c # s) = (s \<noteq> [] \<and> (is_space c \<and> is_space (hd s) \<or> adjacent_spaces s))"
  by (cases s) auto

lemma whitespace_sub_single:
  "\<not> adjacent_spaces (whitespace_sub s)"
proof (induction s rule: whitespace_sub.induct)
  case 1
  show ?case by simp
next
  case (2 c cs)
  show ?case
  proof (cases "is_space c")
    case True
    with 2 have ih: "\<not> adjacent_spaces (whitespace_sub (dropWhile is_space cs))"
      by simp
    have "dropWhile is_space cs \<noteq> [] \<Longrightarrow> \<not> is_space (hd (whitespace_sub (dropWhile is_space cs)))"
      using hd_dropWhile [of is_space cs] hd_whitespace_sub [of "dropWhile is_space cs"]
      by simp
    with True ih show ?thesis
      by (auto simp: adjacent_spaces_Cons whitespace_sub_nonempty)
  next
    case False
    with 2 show ?thesis
      by (simp add: adjacent_spaces_Cons)
  qed
qed

lemma adjacent_spaces_append:
  "\<not> adjacent_spaces (a @ b) \<Longrightarrow> \<not> adjacent_spaces a \<and> \<not> adjacent_spaces b"
proof (induction a)
  case Nil
  then show ?case by simp
next
  case (Cons c a)
  then show ?case
    by (cases a) (auto simp: adjacent_spaces_Cons)
qed

lemma adjacent_spaces_dropWhile:
  assumes "\<not> adjacent_spaces s"
  shows "\<not> adjacent_spaces (dropWhile P s)"
proof -
  have "\<not> adjacent_spaces (takeWhile P s @ dropWhile P s)"
    using assms by simp
  then show ?thesis
    by (rule adjacent_spaces_append [THEN conjunct2])
qed

lemma adjacent_spaces_strip:
  assumes "\<not> adjacent_spaces s"
  shows "\<not> adjacent_spaces (strip s)"
proof -
  from assms have "\<not> adjacent_spaces (dropWhile is_space s)"
    by (rule adjacent_spaces_dropWhile)
  then have "\<not> adjacent_spaces
      (strip s @ rev (takeWhile is_space (rev (dropWhile is_space s))))"
    using strip_prefix [of s] by simp
  then show ?thesis
    by (rule adjacent_spaces_append [THEN conjunct1])
qed

text \<open>The ends are trimmed, and nothing but whitespace is taken away.\<close>

lemma set_strip:
  "set (strip s) \<subseteq> set s"
proof -
  have "set (strip s) \<subseteq> set (dropWhile is_space s)"
    using strip_prefix [of s] by (metis Un_upper1 set_append)
  also have "\<dots> \<subseteq> set s"
    by (rule set_dropWhileD [THEN subsetI])
  finally show ?thesis .
qed

lemma strip_last:
  assumes "strip s \<noteq> []"
  shows "\<not> is_space (last (strip s))"
proof -
  let ?d = "dropWhile is_space (rev (dropWhile is_space s))"
  from assms have ne: "?d \<noteq> []"
    by (simp add: strip_def)
  then have "\<not> is_space (hd ?d)"
    by (rule hd_dropWhile)
  moreover have "last (strip s) = hd ?d"
    using ne by (simp add: strip_def last_rev)
  ultimately show ?thesis
    by simp
qed

lemma strip_hd:
  assumes "strip s \<noteq> []"
  shows "\<not> is_space (hd (strip s))"
proof -
  let ?y = "dropWhile is_space s"
  have "?y \<noteq> []"
  proof
    assume "?y = []"
    then have "strip s = []"
      by (simp only: strip_def rev.simps dropWhile.simps)
    with assms show False
      by simp
  qed
  then have "\<not> is_space (hd ?y)"
    by (rule hd_dropWhile)
  moreover have "hd ?y = hd (strip s)"
    using assms strip_prefix [of s] by (metis hd_append2)
  ultimately show ?thesis
    by simp
qed

lemma filter_dropWhile_space:
  "filter (\<lambda>c. \<not> is_space c) (dropWhile is_space s) = filter (\<lambda>c. \<not> is_space c) s"
  by (induction s) auto

lemma filter_whitespace_sub:
  "filter (\<lambda>c. \<not> is_space c) (whitespace_sub s) = filter (\<lambda>c. \<not> is_space c) s"
proof (induction s rule: whitespace_sub.induct)
  case 1
  show ?case by simp
next
  case (2 c cs)
  then show ?case
    by (cases "is_space c") (simp_all add: filter_dropWhile_space)
qed

lemma filter_strip:
  "filter (\<lambda>c. \<not> is_space c) (strip s) = filter (\<lambda>c. \<not> is_space c) s"
proof -
  have "filter (\<lambda>c. \<not> is_space c) (strip s)
          = rev (filter (\<lambda>c. \<not> is_space c) (dropWhile is_space (rev (dropWhile is_space s))))"
    by (simp add: strip_def rev_filter)
  also have "\<dots> = rev (filter (\<lambda>c. \<not> is_space c) (rev (dropWhile is_space s)))"
    by (simp add: filter_dropWhile_space)
  also have "\<dots> = filter (\<lambda>c. \<not> is_space c) (dropWhile is_space s)"
    by (simp add: rev_filter)
  finally show ?thesis
    by (simp add: filter_dropWhile_space)
qed

lemma strip_all_space:
  assumes "\<forall>c\<in>set s. is_space c"
  shows "strip (whitespace_sub s) = []"
proof (rule ccontr)
  assume ne: "strip (whitespace_sub s) \<noteq> []"
  then have "\<not> is_space (hd (strip (whitespace_sub s)))"
    by (rule strip_hd)
  with ne have "hd (strip (whitespace_sub s))
                  \<in> set (filter (\<lambda>c. \<not> is_space c) (strip (whitespace_sub s)))"
    by simp
  moreover have "filter (\<lambda>c. \<not> is_space c) (strip (whitespace_sub s)) = []"
  proof -
    have "filter (\<lambda>c. \<not> is_space c) (strip (whitespace_sub s))
            = filter (\<lambda>c. \<not> is_space c) s"
      by (simp only: filter_strip filter_whitespace_sub)
    also have "\<dots> = []"
      using assms by (simp add: filter_empty_conv)
    finally show ?thesis .
  qed
  ultimately show False
    by simp
qed

lemma only_markup_spaces:
  "only_markup s \<Longrightarrow> \<forall>c\<in>set (html_tag_sub s). is_space c"
proof (induction s rule: html_tag_sub.induct)
  case 1
  show ?case by simp
next
  case (2 c cs)
  show ?case
  proof (cases "is_space c")
    case True
    then have "c \<noteq> CHR ''<''"
      by auto
    with True 2 show ?thesis
      by simp
  next
    case False
    with 2 show ?thesis
      by simp
  qed
qed

text \<open>The properties of the result of the sanitizer.\<close>

lemma strip_html_SomeE:
  assumes "strip_html (Some t) = Some r"
  obtains "r = strip (whitespace_sub (html_tag_sub t))" and "r \<noteq> []"
  using assms by (auto simp: strip_html_def Let_def split: if_splits)

lemma strip_html_no_tag:
  assumes "\<not> has_tag t"
  shows "strip_html (Some t) = sanitize_spec (Some t)"
proof (cases "t = []")
  case True
  then show ?thesis
    by (simp add: strip_html_def sanitize_spec_def strip_def)
next
  case False
  with assms show ?thesis
    by (simp add: strip_html_def sanitize_spec_def html_tag_sub_no_tag html_tag_remove_no_tag)
qed

lemma strip_html_after_sub:
  "strip_html (Some t) = sanitize_spec (Some (html_tag_sub t))"
proof (cases "t = []")
  case True
  then show ?thesis
    by (simp add: strip_html_def sanitize_spec_def strip_def)
next
  case False
  then show ?thesis
    by (simp add: strip_html_def sanitize_spec_def
                  html_tag_remove_no_tag [OF has_tag_html_tag_sub])
qed

text \<open>
  C8 as stated fails: a tag is not removed but replaced by a space, so the words a tag
  stood between stay apart. The sanitizer of the specification, which deletes the tag,
  gives another text.
\<close>

theorem strip_html_tag_becomes_space_counterexample:
  "strip_html (Some ''Hello<br>World'') = Some ''Hello World''
   \<and> sanitize_spec (Some ''Hello<br>World'') = Some ''HelloWorld''
   \<and> strip_html (Some ''Hello<br>World'') \<noteq> sanitize_spec (Some ''Hello<br>World'')"
  by (simp add: strip_html_def sanitize_spec_def strip_def is_space_def)

text \<open>
  C8, amended. For every input text the sanitizer replaces every substring matching the
  tag pattern \<^verbatim>\<open><...>\<close> by one space (the leftmost tag of a text can be exchanged for a
  space without changing the result, and the result holds no tag), collapses every run of
  whitespace to a single space and trims leading and trailing whitespace (the result has
  no two whitespace characters in a row, no whitespace other than the space, none at its
  ends, and the same characters other than whitespace, in the same order, as the text
  with its tags replaced). For absent input, and for input that is entirely markup or
  whitespace, it returns absent, and it never returns an empty string. On a text without
  a tag it is the sanitizer of the specification, and on every text it is that sanitizer
  applied after the tags have been replaced by spaces.
\<close>

theorem strip_html_replaces_tags_by_space:
  "strip_html None = None
   \<and> strip_html text \<noteq> Some []
   \<and> (only_markup m \<longrightarrow> strip_html (Some m) = None)
   \<and> (CHR ''<'' \<notin> set a \<and> body \<noteq> [] \<and> CHR ''>'' \<notin> set body
        \<longrightarrow> strip_html (Some (a @ ''<'' @ body @ ''>'' @ b))
            = strip_html (Some (a @ '' '' @ b)))
   \<and> (strip_html (Some t) = Some r
        \<longrightarrow> \<not> has_tag r \<and> \<not> adjacent_spaces r
            \<and> (\<forall>c\<in>set r. is_space c \<longrightarrow> c = CHR '' '')
            \<and> \<not> is_space (hd r) \<and> \<not> is_space (last r)
            \<and> filter (\<lambda>c. \<not> is_space c) r = filter (\<lambda>c. \<not> is_space c) (html_tag_sub t))
   \<and> (\<not> has_tag u \<longrightarrow> strip_html (Some u) = sanitize_spec (Some u))
   \<and> strip_html (Some t) = sanitize_spec (Some (html_tag_sub t))"
proof -
  have absent: "strip_html None = None"
    by (simp add: strip_html_def)
  have nonempty: "strip_html text \<noteq> Some []"
    by (auto simp: strip_html_def Let_def split: option.splits)
  have markup: "strip_html (Some m) = None" if "only_markup m"
    using strip_all_space [OF only_markup_spaces [OF that]]
    by (simp add: strip_html_def)
  have leftmost: "strip_html (Some (a @ ''<'' @ body @ ''>'' @ b))
                    = strip_html (Some (a @ '' '' @ b))"
    if "CHR ''<'' \<notin> set a" "body \<noteq> []" "CHR ''>'' \<notin> set body"
    using html_tag_sub_leftmost [OF that, of b]
    by (simp add: strip_html_def)
  have res: "\<not> has_tag r \<and> \<not> adjacent_spaces r
            \<and> (\<forall>c\<in>set r. is_space c \<longrightarrow> c = CHR '' '')
            \<and> \<not> is_space (hd r) \<and> \<not> is_space (last r)
            \<and> filter (\<lambda>c. \<not> is_space c) r = filter (\<lambda>c. \<not> is_space c) (html_tag_sub t)"
    if "strip_html (Some t) = Some r"
  proof -
    from that have r: "r = strip (whitespace_sub (html_tag_sub t))" and ne: "r \<noteq> []"
      by (auto elim: strip_html_SomeE)
    have "\<not> has_tag r"
      unfolding r
      by (rule has_tag_strip) (simp add: has_tag_whitespace_sub has_tag_html_tag_sub)
    moreover have "\<not> adjacent_spaces r"
      unfolding r by (rule adjacent_spaces_strip) (rule whitespace_sub_single)
    moreover have "\<forall>c\<in>set r. is_space c \<longrightarrow> c = CHR '' ''"
      using set_strip [of "whitespace_sub (html_tag_sub t)"] whitespace_sub_spaces
      unfolding r by blast
    moreover have "\<not> is_space (hd r)"
      using ne unfolding r by (rule strip_hd)
    moreover have "\<not> is_space (last r)"
      using ne unfolding r by (rule strip_last)
    moreover have "filter (\<lambda>c. \<not> is_space c) r
                     = filter (\<lambda>c. \<not> is_space c) (html_tag_sub t)"
      unfolding r by (simp only: filter_strip filter_whitespace_sub)
    ultimately show ?thesis
      by simp
  qed
  have spec: "strip_html (Some u) = sanitize_spec (Some u)" if "\<not> has_tag u"
    using that by (rule strip_html_no_tag)
  from absent nonempty markup leftmost res spec strip_html_after_sub [of t]
  show ?thesis
    by blast
qed

theorem strip_html_replaces_tags_by_space_witness:
  "only_markup '' <p> </p> '' \<and> strip_html (Some '' <p> </p> '') = None
   \<and> CHR ''<'' \<notin> set ''Hello'' \<and> ''br'' \<noteq> [] \<and> CHR ''>'' \<notin> set ''br''
   \<and> strip_html (Some (''Hello'' @ ''<'' @ ''br'' @ ''>'' @ ''World''))
       = strip_html (Some (''Hello'' @ '' '' @ ''World''))
   \<and> strip_html (Some ''<p>Hello   <b>World</b> </p>'') = Some ''Hello World''
   \<and> \<not> has_tag ''Hello World'' \<and> \<not> adjacent_spaces ''Hello World''
   \<and> filter (\<lambda>c. is_space c \<and> c \<noteq> CHR '' '') ''Hello World'' = []
   \<and> \<not> is_space (hd ''Hello World'') \<and> \<not> is_space (last ''Hello World'')
   \<and> filter (\<lambda>c. \<not> is_space c) ''Hello World''
       = filter (\<lambda>c. \<not> is_space c) (html_tag_sub ''<p>Hello   <b>World</b> </p>'')
   \<and> \<not> has_tag ''  plain   text ''
   \<and> strip_html (Some ''  plain   text '') = sanitize_spec (Some ''  plain   text '')"
proof -
  have h1: "only_markup '' <p> </p> ''"
    by (simp add: is_space_def)
  have h2: "CHR ''<'' \<notin> set ''Hello'' \<and> ''br'' \<noteq> [] \<and> CHR ''>'' \<notin> set ''br''"
    by simp
  have h3: "strip_html (Some ''<p>Hello   <b>World</b> </p>'') = Some ''Hello World''"
    by (simp add: strip_html_def strip_def is_space_def)
  have h4: "\<not> has_tag ''  plain   text ''"
    by simp
  note inst = strip_html_replaces_tags_by_space
    [of "Some ''<p></p>''" "'' <p> </p> ''" "''Hello''" "''br''" "''World''"
        "''<p>Hello   <b>World</b> </p>''" "''Hello World''" "''  plain   text ''"]
  from inst h1 have c1: "strip_html (Some '' <p> </p> '') = None"
    by blast
  from inst h2 have c2: "strip_html (Some (''Hello'' @ ''<'' @ ''br'' @ ''>'' @ ''World''))
       = strip_html (Some (''Hello'' @ '' '' @ ''World''))"
    by blast
  from inst h3 have c3: "\<not> has_tag ''Hello World'' \<and> \<not> adjacent_spaces ''Hello World''
   \<and> (\<forall>c\<in>set ''Hello World''. is_space c \<longrightarrow> c = CHR '' '')
   \<and> \<not> is_space (hd ''Hello World'') \<and> \<not> is_space (last ''Hello World'')
   \<and> filter (\<lambda>c. \<not> is_space c) ''Hello World''
       = filter (\<lambda>c. \<not> is_space c) (html_tag_sub ''<p>Hello   <b>World</b> </p>'')"
    by blast
  from inst h4 have c4:
    "strip_html (Some ''  plain   text '') = sanitize_spec (Some ''  plain   text '')"
    by blast
  from c3 have c5: "filter (\<lambda>c. is_space c \<and> c \<noteq> CHR '' '') ''Hello World'' = []"
    by (simp only: filter_empty_conv) blast
  from h1 h2 h3 h4 c1 c2 c3 c4 c5 show ?thesis
    by blast
qed

end
